theory Spec2Isabelle
  imports Main "HOL-Library.Sublist" "HOL-Library.AList"
begin

section \<open>Python strings and POSIX paths\<close>

text \<open>
  The program is \<^verbatim>\<open>figshare_dataset.py\<close>. Its strings are modelled as
  \<^typ>\<open>string\<close>; the functions of \<^verbatim>\<open>str\<close> and \<^verbatim>\<open>os.path\<close> (POSIX
  flavour) that it calls are written out here as the library computes them.
\<close>

text \<open>\<^verbatim>\<open>s.find(c)\<close>: the index of the first occurrence of \<open>c\<close>, or \<open>-1\<close>.\<close>

fun find_chr :: "string \<Rightarrow> char \<Rightarrow> int" where
  "find_chr [] c = -1"
| "find_chr (x # xs) c =
     (if x = c then 0
      else (let i = find_chr xs c in if i < 0 then -1 else i + 1))"

text \<open>\<^verbatim>\<open>s[:k]\<close>: a negative \<open>k\<close> counts from the end of the string.\<close>

definition slice_to :: "string \<Rightarrow> int \<Rightarrow> string" where
  "slice_to s k =
     (if k < 0 then take (nat (int (length s) + k)) s else take (nat k) s)"

text \<open>\<^verbatim>\<open>s.startswith(p)\<close> is \<^const>\<open>prefix\<close>, \<^verbatim>\<open>s.endswith(p)\<close> is \<^const>\<open>suffix\<close>.\<close>

text \<open>\<^verbatim>\<open>sub in s\<close> for strings.\<close>

fun contains :: "string \<Rightarrow> string \<Rightarrow> bool" where
  "contains [] sub = (sub = [])"
| "contains (x # xs) sub = (prefix sub (x # xs) \<or> contains xs sub)"

text \<open>\<^verbatim>\<open>s.rstrip(chars)\<close>: drops every trailing character that occurs in \<open>chars\<close>.\<close>

definition rstrip :: "string \<Rightarrow> string \<Rightarrow> string" where
  "rstrip s chars = rev (dropWhile (\<lambda>c. c \<in> set chars) (rev s))"

text \<open>\<^verbatim>\<open>posixpath.join(a, b)\<close>.\<close>

definition path_join :: "string \<Rightarrow> string \<Rightarrow> string" where
  "path_join a b =
     (if prefix ''/'' b then b
      else if a = [] \<or> suffix ''/'' a then a @ b
      else a @ ''/'' @ b)"

text \<open>\<^verbatim>\<open>posixpath.basename(p)\<close>: what follows the last \<open>/\<close>.\<close>

definition basename :: "string \<Rightarrow> string" where
  "basename p = rev (takeWhile (\<lambda>c. c \<noteq> CHR ''/'') (rev p))"

text \<open>
  \<^verbatim>\<open>posixpath.splitext(p)[0]\<close>: the path up to its last dot, when that dot lies in
  the last component and is preceded there by a character other than a dot; the
  whole path otherwise.
\<close>

definition splitext_root :: "string \<Rightarrow> string" where
  "splitext_root p =
     (let b = basename p;
          ext = rev (takeWhile (\<lambda>c. c \<noteq> CHR ''.'') (rev b));
          stem = take (length b - length ext - 1) b
      in if CHR ''.'' \<in> set b \<and> list_ex (\<lambda>c. c \<noteq> CHR ''.'') stem
         then take (length p - length ext - 1) p
         else p)"

text \<open>\<^verbatim>\<open>s.split('/')\<close>.\<close>

fun split_slash :: "string \<Rightarrow> string list" where
  "split_slash [] = [[]]"
| "split_slash (x # xs) =
     (if x = CHR ''/'' then [] # split_slash xs
      else (case split_slash xs of
              [] \<Rightarrow> [[x]]
            | y # ys \<Rightarrow> (x # y) # ys))"

text \<open>\<^verbatim>\<open>'/'.join(comps)\<close>.\<close>

fun slash_join :: "string list \<Rightarrow> string" where
  "slash_join [] = []"
| "slash_join [c] = c"
| "slash_join (c # cs) = c @ ''/'' @ slash_join cs"

text \<open>
  The component loop of \<^verbatim>\<open>posixpath.normpath\<close> on an absolute path: empty
  components and \<open>.\<close> are dropped, \<open>..\<close> removes the component before it (and is
  dropped at the root).
\<close>

definition norm_step :: "string list \<Rightarrow> string \<Rightarrow> string list" where
  "norm_step new_comps cmp =
     (if cmp = [] \<or> cmp = ''.'' then new_comps
      else if cmp = ''..'' then butlast new_comps
      else new_comps @ [cmp])"

definition norm_comps :: "string list \<Rightarrow> string list" where
  "norm_comps comps = foldl norm_step [] comps"

text \<open>
  The non-empty components of \<^verbatim>\<open>os.path.abspath(p)\<close>, for the working directory
  \<open>cwd\<close> (an absolute path). Every file-system access of the model names its file
  by these components: there are no symbolic links, and \<open>..\<close> is resolved as
  \<^verbatim>\<open>abspath\<close> resolves it.
\<close>

definition abs_comps :: "string \<Rightarrow> string \<Rightarrow> string list" where
  "abs_comps cwd p = norm_comps (split_slash (path_join cwd p))"

fun common_prefix :: "string list \<Rightarrow> string list \<Rightarrow> string list" where
  "common_prefix (x # xs) (y # ys) = (if x = y then x # common_prefix xs ys else [])"
| "common_prefix _ _ = []"

text \<open>\<^verbatim>\<open>posixpath.relpath(path, start)\<close>, for a path that is not empty.\<close>

definition relpath :: "string \<Rightarrow> string \<Rightarrow> string \<Rightarrow> string" where
  "relpath cwd path start =
     (let start_list = abs_comps cwd start;
          path_list = abs_comps cwd path;
          i = length (common_prefix start_list path_list);
          rel_list = replicate (length start_list - i) ''..'' @ drop i path_list
      in if rel_list = [] then ''.'' else slash_join rel_list)"

section \<open>The world the program runs in\<close>

text \<open>
  Exceptions are values. Only subclasses of \<^verbatim>\<open>Exception\<close> are modelled, the ones
  an \<^verbatim>\<open>except Exception\<close> clause catches; the string is the message.
\<close>

datatype exn =
    HTTPError string
  | OSError string
  | ReadError string
  | AzureError string
  | ValueError string
  | UnboundLocalError string

text \<open>\<^verbatim>\<open>str(e)\<close>.\<close>

fun str_of :: "exn \<Rightarrow> string" where
  "str_of (HTTPError m) = m"
| "str_of (OSError m) = m"
| "str_of (ReadError m) = m"
| "str_of (AzureError m) = m"
| "str_of (ValueError m) = m"
| "str_of (UnboundLocalError m) = m"

text \<open>
  The local file system: regular files and directories, the entries of a directory
  in the order \<^verbatim>\<open>os.scandir\<close> lists them.
\<close>

datatype node = File string | Dir "(string \<times> node) list"

text \<open>A member of a tar archive: its name, and its content when it is a regular file.\<close>

datatype member = MFile string string | MDir string

text \<open>
  What one \<^verbatim>\<open>requests.get(url, stream=True)\<close> does: it raises (also through
  \<^verbatim>\<open>raise_for_status\<close> or a malformed \<^verbatim>\<open>content-length\<close>), or it delivers the
  chunks of \<^verbatim>\<open>iter_content\<close> and then ends or raises.
\<close>

datatype response = Refused exn | Stream "string list" "exn option"

text \<open>The calls to the Azure SDK.\<close>

datatype call =
    DefaultAzureCredential
  | BlobServiceClient "string option"
  | ListContainers string
  | CreateContainer string
  | ListBlobNames string string
  | UploadBlob string string

text \<open>What the program does to the outside, in the order it does it.\<close>

datatype event =
    Remote call
  | Request string
  | Sleep nat
  | Print string
  | LogInfo string
  | LogTiming string string
  | LogError string
  | LogException exn
  | PoolCreated nat

text \<open>A catalog entry: one element of \<^verbatim>\<open>article_data['files']\<close>.\<close>

record file_info =
  download_url :: string
  name :: string

text \<open>
  The state of everything outside the program. \<open>ticks\<close> counts the interactions with
  the outside so far; the oracles \<open>fault\<close> (a remote call fails), \<open>net\<close> (an HTTP
  request) and \<open>tmp_name\<close> (the path \<^verbatim>\<open>tempfile\<close> picks) depend on it, so that the
  same call can fail once and succeed later. \<open>untar\<close> is \<^verbatim>\<open>tarfile\<close>'s parser:
  \<open>None\<close> where the bytes are not an archive. \<open>containers\<close> is the storage account:
  each container with its blobs, name and content. \<open>article\<close> is what the fetch of
  the catalog gives, an exception or the list under \<^verbatim>\<open>'files'\<close>, whose entries
  have both keys. \<open>account_url_env\<close> is the environment variable
  \<^verbatim>\<open>AZURE_STORAGE_ACCOUNT_URL\<close>, \<open>cwd\<close> the working directory, an absolute path.
\<close>

record world =
  fs :: node
  cwd :: string
  containers :: "(string \<times> (string \<times> string) list) list"
  fault :: "nat \<Rightarrow> call \<Rightarrow> exn option"
  net :: "nat \<Rightarrow> string \<Rightarrow> response"
  article :: "nat \<Rightarrow> exn + file_info list"
  account_url_env :: "string option"
  untar :: "string \<Rightarrow> member list option"
  tmp_name :: "nat \<Rightarrow> string"
  ticks :: nat
  trace :: "event list"

definition emit :: "event \<Rightarrow> world \<Rightarrow> world" where
  "emit e w = w\<lparr>trace := trace w @ [e]\<rparr>"

definition tick :: "world \<Rightarrow> world" where
  "tick w = w\<lparr>ticks := ticks w + 1\<rparr>"

text \<open>A call to the SDK: recorded, and failing when the oracle says so.\<close>

definition remote_call :: "call \<Rightarrow> world \<Rightarrow> exn option \<times> world" where
  "remote_call c w = (fault w (ticks w) c, tick (emit (Remote c) w))"

section \<open>The Existence Checker\<close>

text \<open>
  \<^verbatim>\<open>container_client.list_blob_names(name_starts_with=p)\<close>, iterated. A container
  client is the name of its container.
\<close>

definition list_blob_names :: "world \<Rightarrow> string \<Rightarrow> string \<Rightarrow> (exn + string list) \<times> world" where
  "list_blob_names w container p =
     (case remote_call (ListBlobNames container p) w of
        (Some e, w') \<Rightarrow> (Inl e, w')
      | (None, w') \<Rightarrow>
          (case map_of (containers w') container of
             None \<Rightarrow> (Inl (AzureError ''ContainerNotFound''), w')
           | Some blobs \<Rightarrow> (Inr (filter (prefix p) (map fst blobs)), w')))"

definition name_wo_ext :: "string \<Rightarrow> string" where
  "name_wo_ext local_filename = slice_to local_filename (find_chr local_filename CHR ''.'')"

definition blob_exists :: "world \<Rightarrow> string \<Rightarrow> string \<Rightarrow> string \<Rightarrow> (exn + bool) \<times> world" where
  "blob_exists w local_filename container_client base_blob_name =
     (let blob_path = path_join base_blob_name (name_wo_ext local_filename) in
      case list_blob_names w container_client blob_path of
        (Inl e, w') \<Rightarrow> (Inl e, w')
      | (Inr blobs_list, w') \<Rightarrow>
          (Inr (case blobs_list of [] \<Rightarrow> False | blob # _ \<Rightarrow> True), w'))"

section \<open>The local file system\<close>

text \<open>The node at a path, given by its components from the root.\<close>

fun fs_get :: "node \<Rightarrow> string list \<Rightarrow> node option" where
  "fs_get n [] = Some n"
| "fs_get (File d) (c # cs) = None"
| "fs_get (Dir es) (c # cs) =
     (case map_of es c of None \<Rightarrow> None | Some n \<Rightarrow> fs_get n cs)"

text \<open>
  Placing a node at a path: the parent must be an existing directory; a new entry
  comes last in its directory, an existing one is replaced where it stands.
\<close>

fun fs_put :: "node \<Rightarrow> string list \<Rightarrow> node \<Rightarrow> node option" where
  "fs_put n [] new = Some new"
| "fs_put (File d) (c # cs) new = None"
| "fs_put (Dir es) (c # cs) new =
     (case map_of es c of
        None \<Rightarrow> (if cs = [] then Some (Dir (es @ [(c, new)])) else None)
      | Some n \<Rightarrow>
          (case fs_put n cs new of
             None \<Rightarrow> None
           | Some n' \<Rightarrow> Some (Dir (AList.update c n' es))))"

text \<open>Removing the entry at a path, with everything below it.\<close>

fun fs_del :: "node \<Rightarrow> string list \<Rightarrow> node" where
  "fs_del n [] = n"
| "fs_del (File d) (c # cs) = File d"
| "fs_del (Dir es) (c # cs) =
     (if cs = [] then Dir (AList.delete c es)
      else (case map_of es c of
              None \<Rightarrow> Dir es
            | Some n \<Rightarrow> Dir (AList.update c (fs_del n cs) es)))"

text \<open>\<^verbatim>\<open>os.makedirs(p, exist_ok=True)\<close>: fails where a regular file is in the way.\<close>

fun makedirs :: "node \<Rightarrow> string list \<Rightarrow> node option" where
  "makedirs (File d) cs = None"
| "makedirs (Dir es) [] = Some (Dir es)"
| "makedirs (Dir es) (c # cs) =
     (case map_of es c of
        None \<Rightarrow>
          (case makedirs (Dir []) cs of
             None \<Rightarrow> None
           | Some n' \<Rightarrow> Some (Dir (es @ [(c, n')])))
      | Some n \<Rightarrow>
          (case makedirs n cs of
             None \<Rightarrow> None
           | Some n' \<Rightarrow> Some (Dir (AList.update c n' es))))"

text \<open>\<^verbatim>\<open>os.path.exists(p)\<close>.\<close>

definition path_exists :: "world \<Rightarrow> string \<Rightarrow> bool" where
  "path_exists w p = (fs_get (fs w) (abs_comps (cwd w) p) \<noteq> None)"

text \<open>\<^verbatim>\<open>open(p, 'wb')\<close>, the writes and the close: the file holds \<open>data\<close> afterwards.\<close>

definition write_file :: "world \<Rightarrow> string \<Rightarrow> string \<Rightarrow> exn + world" where
  "write_file w p data =
     (let cs = abs_comps (cwd w) p in
      case fs_get (fs w) cs of
        Some (Dir es) \<Rightarrow> Inl (OSError ''IsADirectoryError'')
      | _ \<Rightarrow>
          (case fs_put (fs w) cs (File data) of
             None \<Rightarrow> Inl (OSError ''FileNotFoundError'')
           | Some r \<Rightarrow> Inr (w\<lparr>fs := r\<rparr>)))"

text \<open>\<^verbatim>\<open>os.remove(p)\<close>.\<close>

definition os_remove :: "world \<Rightarrow> string \<Rightarrow> (exn + unit) \<times> world" where
  "os_remove w p =
     (let cs = abs_comps (cwd w) p in
      case fs_get (fs w) cs of
        None \<Rightarrow> (Inl (OSError ''FileNotFoundError''), w)
      | Some (Dir es) \<Rightarrow> (Inl (OSError ''IsADirectoryError''), w)
      | Some (File d) \<Rightarrow> (Inr (), w\<lparr>fs := fs_del (fs w) cs\<rparr>))"

text \<open>\<^verbatim>\<open>tarfile.open(p, 'r')\<close>: the members of the archive.\<close>

definition tarfile_open :: "world \<Rightarrow> string \<Rightarrow> exn + member list" where
  "tarfile_open w p =
     (case fs_get (fs w) (abs_comps (cwd w) p) of
        None \<Rightarrow> Inl (OSError ''FileNotFoundError'')
      | Some (Dir es) \<Rightarrow> Inl (OSError ''IsADirectoryError'')
      | Some (File d) \<Rightarrow>
          (case untar w d of
             None \<Rightarrow> Inl (ReadError ''file could not be opened successfully'')
           | Some members \<Rightarrow> Inr members))"

text \<open>
  \<^verbatim>\<open>tar_ref.extract(member, path)\<close>: the member goes to \<^verbatim>\<open>os.path.join(path, name)\<close>,
  its missing parent directories are created.
\<close>

fun extract_member :: "world \<Rightarrow> string \<Rightarrow> member \<Rightarrow> exn + world" where
  "extract_member w path (MDir nm) =
     (case makedirs (fs w) (abs_comps (cwd w) (path_join path nm)) of
        None \<Rightarrow> Inl (OSError ''FileExistsError'')
      | Some r \<Rightarrow> Inr (w\<lparr>fs := r\<rparr>))"
| "extract_member w path (MFile nm data) =
     (case makedirs (fs w) (butlast (abs_comps (cwd w) (path_join path nm))) of
        None \<Rightarrow> Inl (OSError ''FileExistsError'')
      | Some r \<Rightarrow> write_file (w\<lparr>fs := r\<rparr>) (path_join path nm) data)"

text \<open>
  \<^verbatim>\<open>tar_ref.extractall(path)\<close>: member after member; the first failure ends it and
  leaves what was extracted before.
\<close>

fun extractall :: "world \<Rightarrow> member list \<Rightarrow> string \<Rightarrow> (exn + unit) \<times> world" where
  "extractall w [] path = (Inr (), w)"
| "extractall w (m # ms) path =
     (case extract_member w path m of
        Inl e \<Rightarrow> (Inl e, w)
      | Inr w' \<Rightarrow> extractall w' ms path)"

section \<open>The Extractor\<close>

definition extracted_folder_name :: "string \<Rightarrow> string" where
  "extracted_folder_name file_path =
     (let file_name = rstrip file_path ''.tar.gz''
      in splitext_root (basename file_name))"


section \<open>The Downloader\<close>

definition max_attempts :: nat where
  "max_attempts = 1000"

definition retry_delay :: nat where
  "retry_delay = 180"

text \<open>
  The body of the \<^verbatim>\<open>try\<close> in \<^verbatim>\<open>download_file\<close>: one request, streamed into the
  destination file. The file is opened once the response is there, so a failure
  while streaming leaves the chunks written so far.
\<close>

definition attempt_download :: "world \<Rightarrow> string \<Rightarrow> string \<Rightarrow> (exn + unit) \<times> world" where
  "attempt_download w url local_filename =
     (let w1 = tick (emit (Request url) w) in
      case net w (ticks w) url of
        Refused e \<Rightarrow> (Inl e, w1)
      | Stream chunks err \<Rightarrow>
          (case write_file w1 local_filename (concat (filter (\<lambda>chunk. chunk \<noteq> []) chunks)) of
             Inl e \<Rightarrow> (Inl e, w1)
           | Inr w2 \<Rightarrow>
               (case err of
                  Some e \<Rightarrow> (Inl e, w2)
                | None \<Rightarrow> (Inr (), emit (Print []) w2))))"

text \<open>The \<^verbatim>\<open>except Exception\<close> clause: a message, then the delay.\<close>

definition failure_events :: "exn \<Rightarrow> event list" where
  "failure_events e =
     (let error_message = str_of e in
      if contains error_message ''IncompleteRead''
      then [Print (''Connection error occurred: '' @ error_message @ ''. Retrying in 180 seconds...''),
            Sleep retry_delay]
      else [Print (''An unexpected error occurred: '' @ error_message @ ''. Retrying in 180 seconds...''),
            Sleep retry_delay])"

definition on_failure :: "exn \<Rightarrow> world \<Rightarrow> world" where
  "on_failure e w = w\<lparr>trace := trace w @ failure_events e\<rparr>"

function download_loop :: "world \<Rightarrow> string \<Rightarrow> string \<Rightarrow> nat \<Rightarrow> string option \<times> world" where
  "download_loop w url local_filename attempt =
     (if attempt < max_attempts then
        (case attempt_download w url local_filename of
           (Inr u, w') \<Rightarrow> (Some local_filename, w')
         | (Inl e, w') \<Rightarrow> download_loop (on_failure e w') url local_filename (attempt + 1))
      else (None, emit (Print (''Failed to download '' @ local_filename @ '' after 1000 attempts.'')) w))"
  by pat_completeness auto
termination
  by (relation "measure (\<lambda>(w, url, local_filename, attempt). max_attempts - attempt)") auto

declare download_loop.simps [simp del]

text \<open>
  \<^verbatim>\<open>download_file\<close> returns the destination path, or \<^verbatim>\<open>None\<close>. (The size that
  \<^verbatim>\<open>file_exists\<close> reports before the loop is never used.)
\<close>

definition download_file :: "world \<Rightarrow> string \<times> string \<Rightarrow> string option \<times> world" where
  "download_file w args =
     (case args of (url, local_filename) \<Rightarrow> download_loop w url local_filename 0)"


section \<open>The Per-File Pipeline\<close>

text \<open>
  The first statements of \<^verbatim>\<open>download_to_blob\<close> (and, word for word, of \<^verbatim>\<open>main\<close>):
  the credential, the service client, and the container client, creating the
  container when the listing does not have it. \<^verbatim>\<open>BlobServiceClient\<close> raises on an
  account URL that is \<^verbatim>\<open>None\<close>.
\<close>

definition create_container :: "world \<Rightarrow> string \<Rightarrow> (exn + string) \<times> world" where
  "create_container w container_name =
     (case remote_call (CreateContainer container_name) w of
        (Some e, w') \<Rightarrow> (Inl e, w')
      | (None, w') \<Rightarrow>
          (if container_name \<in> set (map fst (containers w'))
           then (Inl (AzureError ''ContainerAlreadyExists''), w')
           else (Inr container_name, w'\<lparr>containers := containers w' @ [(container_name, [])]\<rparr>)))"

definition get_container :: "world \<Rightarrow> string option \<Rightarrow> string \<Rightarrow> (exn + string) \<times> world" where
  "get_container w storage_acct_url container_name =
     (case remote_call DefaultAzureCredential w of
        (Some e, w1) \<Rightarrow> (Inl e, w1)
      | (None, w1) \<Rightarrow>
     (case remote_call (BlobServiceClient storage_acct_url) w1 of
        (Some e, w2) \<Rightarrow> (Inl e, w2)
      | (None, w2) \<Rightarrow>
     (if storage_acct_url = None then (Inl (ValueError ''Account URL must be a string.''), w2)
      else
     (case remote_call (ListContainers container_name) w2 of
        (Some e, w3) \<Rightarrow> (Inl e, w3)
      | (None, w3) \<Rightarrow>
          (let listed = filter (prefix container_name) (map fst (containers w3));
               container_exists = list_ex (\<lambda>container. container = container_name) listed
           in if \<not> container_exists then create_container w3 container_name
              else (Inr container_name, w3))))))"

text \<open>
  \<^verbatim>\<open>container_client.upload_blob(name=blob_path, data=data)\<close>: it does not overwrite.
\<close>

definition upload_blob :: "world \<Rightarrow> string \<Rightarrow> string \<Rightarrow> string \<Rightarrow> (exn + unit) \<times> world" where
  "upload_blob w container_client blob_path data =
     (case remote_call (UploadBlob container_client blob_path) w of
        (Some e, w') \<Rightarrow> (Inl e, w')
      | (None, w') \<Rightarrow>
          (case map_of (containers w') container_client of
             None \<Rightarrow> (Inl (AzureError ''ContainerNotFound''), w')
           | Some blobs \<Rightarrow>
               (if blob_path \<in> set (map fst blobs)
                then (Inl (AzureError ''BlobAlreadyExists''), w')
                else (Inr (), w'\<lparr>containers :=
                        AList.update container_client (blobs @ [(blob_path, data)]) (containers w')\<rparr>))))"

text \<open>
  \<^verbatim>\<open>os.walk(tmpdir)\<close>, top down: for each directory its path, the names of its
  subdirectories and its files, then the same for each subdirectory in turn. Each
  file comes with the content that \<^verbatim>\<open>open(full_path, 'rb')\<close> reads.
\<close>

fun walk :: "string \<Rightarrow> node \<Rightarrow> (string \<times> string list \<times> (string \<times> string) list) list" where
  "walk root (File d) = []"
| "walk root (Dir es) =
     (root, [n. (n, Dir sub) \<leftarrow> es], [(n, d). (n, File d) \<leftarrow> es])
     # concat (map (\<lambda>e. walk (path_join root (fst e)) (snd e)) es)"

definition os_walk :: "world \<Rightarrow> string \<Rightarrow> (string \<times> string list \<times> (string \<times> string) list) list" where
  "os_walk w tmpdir =
     (case fs_get (fs w) (abs_comps (cwd w) tmpdir) of
        None \<Rightarrow> []
      | Some n \<Rightarrow> walk tmpdir n)"

text \<open>The inner loop of the upload phase, \<^verbatim>\<open>for f in files\<close>.\<close>

fun upload_files ::
  "world \<Rightarrow> string \<Rightarrow> string \<Rightarrow> string \<Rightarrow> string \<Rightarrow> (string \<times> string) list \<Rightarrow> nat
   \<Rightarrow> (exn + nat) \<times> world" where
  "upload_files w container_client base_blob_name tmpdir root [] n_blobs_uploaded =
     (Inr n_blobs_uploaded, w)"
| "upload_files w container_client base_blob_name tmpdir root ((f, data) # files) n_blobs_uploaded =
     (let full_path = path_join root f;
          rel_path = relpath (cwd w) full_path tmpdir;
          blob_path = path_join base_blob_name rel_path
      in case upload_blob w container_client blob_path data of
           (Inl e, w') \<Rightarrow> (Inl e, w')
         | (Inr u, w') \<Rightarrow>
             upload_files w' container_client base_blob_name tmpdir root files (n_blobs_uploaded + 1))"

text \<open>The outer loop, \<^verbatim>\<open>for root, dirs, files in os.walk(tmpdir)\<close>.\<close>

fun upload_walk ::
  "world \<Rightarrow> string \<Rightarrow> string \<Rightarrow> string \<Rightarrow> (string \<times> string list \<times> (string \<times> string) list) list \<Rightarrow> nat
   \<Rightarrow> (exn + nat) \<times> world" where
  "upload_walk w container_client base_blob_name tmpdir [] n_blobs_uploaded =
     (Inr n_blobs_uploaded, w)"
| "upload_walk w container_client base_blob_name tmpdir ((root, dirs, files) # rest) n_blobs_uploaded =
     (case upload_files w container_client base_blob_name tmpdir root files n_blobs_uploaded of
        (Inl e, w') \<Rightarrow> (Inl e, w')
      | (Inr n, w') \<Rightarrow> upload_walk w' container_client base_blob_name tmpdir rest n)"

text \<open>
  The body of \<^verbatim>\<open>with tempfile.TemporaryDirectory() as tmpdir\<close>, in two parts.
  First the download, the extraction and the removal of the archive. What
  \<^verbatim>\<open>download_file\<close> returns is not looked at. The timings are floating-point and
  are left out of the log lines.
\<close>

definition download_and_extract ::
  "world \<Rightarrow> string \<Rightarrow> string \<Rightarrow> string \<Rightarrow> (exn + unit) \<times> world" where
  "download_and_extract w tmpdir file_url file_name =
     (let local_file_path = path_join tmpdir file_name;
          w1 = snd (download_file w (file_url, local_file_path));
          w2 = emit (LogTiming ''downloading'' file_name) w1
      in case tarfile_open w2 local_file_path of
           Inl e \<Rightarrow> (Inl e, w2)
         | Inr tar_ref \<Rightarrow>
      (case extractall w2 tar_ref tmpdir of
           (Inl e, w3) \<Rightarrow> (Inl e, w3)
         | (Inr u, w3) \<Rightarrow>
             os_remove (emit (LogTiming ''extracting'' file_name) w3) local_file_path))"

text \<open>Then the upload phase.\<close>

definition upload_phase ::
  "world \<Rightarrow> string \<Rightarrow> string \<Rightarrow> string \<Rightarrow> string \<Rightarrow> (exn + nat) \<times> world" where
  "upload_phase w tmpdir file_name container_client base_blob_name =
     (case upload_walk w container_client base_blob_name tmpdir (os_walk w tmpdir) 0 of
        (Inl e, w') \<Rightarrow> (Inl e, w')
      | (Inr n_blobs_uploaded, w') \<Rightarrow>
          (Inr n_blobs_uploaded, emit (LogTiming ''uploading'' file_name) w'))"

definition pipeline_body ::
  "world \<Rightarrow> string \<Rightarrow> string \<Rightarrow> string \<Rightarrow> string \<Rightarrow> string \<Rightarrow> (exn + nat) \<times> world" where
  "pipeline_body w tmpdir file_url file_name container_client base_blob_name =
     (case download_and_extract w tmpdir file_url file_name of
        (Inl e, w') \<Rightarrow> (Inl e, w')
      | (Inr u, w') \<Rightarrow> upload_phase w' tmpdir file_name container_client base_blob_name)"

text \<open>
  \<^verbatim>\<open>tempfile.TemporaryDirectory()\<close>: a new directory at the path the oracle picks;
  its \<^verbatim>\<open>cleanup\<close> removes the directory and everything in it.
\<close>

definition mkdtemp :: "world \<Rightarrow> exn + string \<times> world" where
  "mkdtemp w =
     (let tmpdir = tmp_name w (ticks w);
          cs = abs_comps (cwd w) tmpdir
      in case fs_get (fs w) cs of
           Some n \<Rightarrow> Inl (OSError ''FileExistsError'')
         | None \<Rightarrow>
             (case fs_put (fs w) cs (Dir []) of
                None \<Rightarrow> Inl (OSError ''FileNotFoundError'')
              | Some r \<Rightarrow> Inr (tmpdir, tick (w\<lparr>fs := r\<rparr>))))"

definition cleanup :: "world \<Rightarrow> string \<Rightarrow> world" where
  "cleanup w tmpdir = w\<lparr>fs := fs_del (fs w) (abs_comps (cwd w) tmpdir)\<rparr>"

text \<open>
  The \<^verbatim>\<open>try\<close> statement of \<^verbatim>\<open>download_to_blob\<close>, up to its \<^verbatim>\<open>except\<close> clause: the
  \<^verbatim>\<open>with\<close> block cleans up on both ways out.
\<close>

definition with_tmpdir ::
  "world \<Rightarrow> string \<Rightarrow> string \<Rightarrow> string \<Rightarrow> string \<Rightarrow> (exn + nat) \<times> world" where
  "with_tmpdir w file_url file_name container_client base_blob_name =
     (case mkdtemp w of
        Inl e \<Rightarrow> (Inl e, w)
      | Inr (tmpdir, w1) \<Rightarrow>
          (case pipeline_body w1 tmpdir file_url file_name container_client base_blob_name of
             (Inl e, w2) \<Rightarrow> (Inl e, cleanup w2 tmpdir)
           | (Inr n_blobs_uploaded, w2) \<Rightarrow>
               (Inr n_blobs_uploaded, emit (LogTiming ''total'' file_name) (cleanup w2 tmpdir))))"

text \<open>
  \<^verbatim>\<open>download_to_blob\<close>: \<open>Inl\<close> is an exception that leaves the function, and
  \<open>Inr\<close> is what the function returns.
\<close>

type_synonym task = "string \<times> string \<times> string option \<times> string \<times> string"

definition download_to_blob :: "world \<Rightarrow> task \<Rightarrow> (exn + int) \<times> world" where
  "download_to_blob w args =
     (case args of (file_url, file_name, storage_acct_url, container_name, base_blob_name) \<Rightarrow>
        (case get_container w storage_acct_url container_name of
           (Inl e, w0) \<Rightarrow> (Inl e, w0)
         | (Inr container_client, w0) \<Rightarrow>
             (case with_tmpdir w0 file_url file_name container_client base_blob_name of
                (Inl e, w') \<Rightarrow> (Inr (- 1), emit (LogException e) w')
              | (Inr n_blobs_uploaded, w') \<Rightarrow> (Inr (int n_blobs_uploaded), w'))))"

section \<open>The Orchestrator\<close>

definition article_url :: string where
  "article_url = ''https://api.figshare.com/v2/articles/22202866''"

definition CONTAINER_NAME :: string where
  "CONTAINER_NAME = ''polyp-datasets''"

definition BASE_BLOB_NAME :: string where
  "BASE_BLOB_NAME = ''real-colon-dataset''"

text \<open>\<^verbatim>\<open>str(n)\<close> for an integer.\<close>

fun str_nat :: "nat \<Rightarrow> string" where
  "str_nat n =
     (if n < 10 then [''0123456789'' ! n]
      else str_nat (n div 10) @ [''0123456789'' ! (n mod 10)])"

declare str_nat.simps [simp del]

definition str_int :: "int \<Rightarrow> string" where
  "str_int i = (if i < 0 then ''-'' @ str_nat (nat (- i)) else str_nat (nat i))"

text \<open>
  The loop over \<^verbatim>\<open>article_data['files']\<close> that fills \<^verbatim>\<open>download_tasks\<close>.
\<close>

fun queue_tasks ::
  "world \<Rightarrow> file_info list \<Rightarrow> string \<Rightarrow> string option \<Rightarrow> task list \<Rightarrow> (exn + task list) \<times> world" where
  "queue_tasks w [] container_client account_url download_tasks = (Inr download_tasks, w)"
| "queue_tasks w (info # rest) container_client account_url download_tasks =
     (let file_url = download_url info;
          file_name = name info
      in case blob_exists w file_name container_client BASE_BLOB_NAME of
           (Inl e, w') \<Rightarrow> (Inl e, w')
         | (Inr existing_blob, w') \<Rightarrow>
             (if existing_blob
              then queue_tasks
                     (emit (LogInfo (''blobs for file '' @ file_name @ '' already uploaded. Skipping'')) w')
                     rest container_client account_url download_tasks
              else queue_tasks
                     (emit (LogInfo (''Queued '' @ file_name @ '' for download...'')) w')
                     rest container_client account_url
                     (download_tasks @ [(file_url, file_name, account_url, CONTAINER_NAME, BASE_BLOB_NAME)])))"

text \<open>
  \<^verbatim>\<open>pool.starmap(download_to_blob, download_tasks)\<close>: the results in the order of
  the tasks. The workers share nothing but the outside world; their pipelines are
  run here one after the other, and an exception that leaves one of them leaves
  \<^verbatim>\<open>starmap\<close>.
\<close>

fun starmap_download_to_blob :: "world \<Rightarrow> task list \<Rightarrow> (exn + int list) \<times> world" where
  "starmap_download_to_blob w [] = (Inr [], w)"
| "starmap_download_to_blob w (args # rest) =
     (case download_to_blob w args of
        (Inl e, w') \<Rightarrow> (Inl e, w')
      | (Inr n, w') \<Rightarrow>
          (case starmap_download_to_blob w' rest of
             (Inl e, w'') \<Rightarrow> (Inl e, w'')
           | (Inr ns, w'') \<Rightarrow> (Inr (n # ns), w'')))"

text \<open>The summary loop, \<^verbatim>\<open>for file, n_blobs in zip(fnames, results)\<close>.\<close>

fun summary :: "world \<Rightarrow> (string \<times> int) list \<Rightarrow> world" where
  "summary w [] = w"
| "summary w ((file, n_blobs) # rest) =
     (if n_blobs = - 1
      then summary
             (emit (LogError (''Something went wrong for file '' @ file
                              @ ''. See exception logs for stack trace.'')) w) rest
      else summary
             (emit (LogInfo (''Uploaded '' @ str_int n_blobs @ '' for file '' @ file)) w) rest)"

text \<open>
  \<^verbatim>\<open>main\<close>. The local variable \<^verbatim>\<open>results\<close> is bound only where the pool runs:
  \<open>None\<close> is the unbound variable, and reading it raises.
\<close>

definition main :: "world \<Rightarrow> (exn + unit) \<times> world" where
  "main w =
     (let account_url = account_url_env w in
      case get_container w account_url CONTAINER_NAME of
        (Inl e, w1) \<Rightarrow> (Inl e, w1)
      | (Inr container_client, w1) \<Rightarrow>
     (case article w1 (ticks w1) of
        Inl e \<Rightarrow> (Inl e, tick (emit (Request article_url) w1))
      | Inr files \<Rightarrow>
     (case queue_tasks (tick (emit (Request article_url) w1)) files container_client account_url [] of
        (Inl e, w2) \<Rightarrow> (Inl e, w2)
      | (Inr download_tasks, w2) \<Rightarrow>
     (let num_processes = min 4 (length download_tasks) in
      case (if num_processes \<noteq> 0
            then (case starmap_download_to_blob (emit (PoolCreated num_processes) w2) download_tasks of
                    (Inl e, w3) \<Rightarrow> (Inl e, w3)
                  | (Inr ns, w3) \<Rightarrow> (Inr (Some ns), w3))
            else (Inr None, w2)) of
        (Inl e, w3) \<Rightarrow> (Inl e, w3)
      | (Inr results, w3) \<Rightarrow>
          (let fnames = map (\<lambda>args. fst (snd args)) download_tasks in
           case results of
             None \<Rightarrow>
               (Inl (UnboundLocalError ''local variable results referenced before assignment''), w3)
           | Some ns \<Rightarrow>
               (Inr (), emit (LogInfo ''All downloads completed.'') (summary w3 (zip fnames ns))))))))"

section \<open>Directory trees\<close>

text \<open>
  The name of a directory entry: not empty, without a slash, and neither \<open>.\<close> nor
  \<open>..\<close>. In a well-formed tree every entry has such a name.
\<close>

definition plain :: "string \<Rightarrow> bool" where
  "plain f = (f \<noteq> [] \<and> CHR ''/'' \<notin> set f \<and> f \<noteq> ''.'' \<and> f \<noteq> ''..'')"

fun wf_node :: "node \<Rightarrow> bool" where
  "wf_node (File d) = True"
| "wf_node (Dir es) = list_all (\<lambda>e. plain (fst e) \<and> wf_node (snd e)) es"

text \<open>The number of regular files in a tree.\<close>

fun count_files :: "node \<Rightarrow> nat" where
  "count_files (File d) = 1"
| "count_files (Dir es) = sum_list (map (\<lambda>e. count_files (snd e)) es)"

text \<open>
  The regular files below a directory, each with its path relative to that
  directory (the components after \<open>pre\<close>) and its content: the files of the
  directory itself first, then those of each subdirectory.
\<close>

fun tree_files :: "string list \<Rightarrow> node \<Rightarrow> (string list \<times> string) list" where
  "tree_files pre (File d) = []"
| "tree_files pre (Dir es) =
     [(pre @ [n], d). (n, File d) \<leftarrow> es]
     @ concat (map (\<lambda>e. tree_files (pre @ [fst e]) (snd e)) es)"

text \<open>The blob expected for a file: its name is \<open>base/relative path\<close>.\<close>

definition blob_of :: "string \<Rightarrow> string list \<times> string \<Rightarrow> string \<times> string" where
  "blob_of base_blob_name f = (base_blob_name @ ''/'' @ slash_join (fst f), snd f)"

text \<open>The blobs of a container; none when the container is not there.\<close>

definition blobs_in :: "world \<Rightarrow> string \<Rightarrow> (string \<times> string) list" where
  "blobs_in w container = (case map_of (containers w) container of None \<Rightarrow> [] | Some blobs \<Rightarrow> blobs)"

text \<open>
  What it means that, from world \<open>w\<close> and count \<open>n\<close> to world \<open>w'\<close> and count \<open>n'\<close>,
  exactly the files \<open>items\<close> were uploaded: one call and one new blob for each, in
  this order, and nothing else was done.
\<close>

definition uploads_done ::
  "string \<Rightarrow> string \<Rightarrow> world \<Rightarrow> nat \<Rightarrow> (string list \<times> string) list \<Rightarrow> world \<Rightarrow> nat \<Rightarrow> bool" where
  "uploads_done container base_blob_name w n items w' n' =
     (n' = n + length items
      \<and> blobs_in w' container = blobs_in w container @ map (blob_of base_blob_name) items
      \<and> trace w' = trace w
           @ map (\<lambda>f. Remote (UploadBlob container (fst (blob_of base_blob_name f)))) items
      \<and> cwd w' = cwd w \<and> fs w' = fs w)"

section \<open>Example worlds\<close>

text \<open>
  A storage account that holds the blobs of an entry \<^verbatim>\<open>notes2.tar.gz\<close>, an empty
  \<^verbatim>\<open>/tmp\<close>, and a network on which a request fails as long as fewer than five
  interactions with the outside have taken place. The only archive is the byte
  string \<^verbatim>\<open>TAR\<close>.
\<close>

definition example_members :: "member list" where
  "example_members =
     [MDir ''frames'', MFile ''frames/1.jpg'' ''one'', MFile ''frames/2.jpg'' ''two'',
      MFile ''info.csv'' ''csv'']"

definition example_world :: world where
  "example_world =
     \<lparr>fs = Dir [(''tmp'', Dir [])],
      cwd = ''/'',
      containers = [(''polyp-datasets'', [(''real-colon-dataset/notes2/a.txt'', ''x'')])],
      fault = (\<lambda>t c. None),
      net = (\<lambda>t url. if t < 5 then Refused (HTTPError ''IncompleteRead'')
                      else Stream [''TA'', [], ''R''] None),
      article = (\<lambda>t. Inr [\<lparr>download_url = ''http://figshare/2'', name = ''notes2.tar.gz''\<rparr>]),
      account_url_env = Some ''https://account.blob.core.windows.net'',
      untar = (\<lambda>d. if d = ''TAR'' then Some example_members else None),
      tmp_name = (\<lambda>t. ''/tmp/tmp3''),
      ticks = 0,
      trace = []\<rparr>"



text \<open>The arguments of \<^verbatim>\<open>download_to_blob\<close> for the entry of the example catalog.\<close>

definition example_task :: task where
  "example_task =
     (''http://figshare/2'', ''notes2.tar.gz'', Some ''https://account.blob.core.windows.net'',
      ''polyp-datasets'', ''real-colon-dataset'')"


text \<open>The example world when what the server sends is no archive.\<close>

definition corrupt_world :: world where
  "corrupt_world = example_world\<lparr>untar := (\<lambda>d. None)\<rparr>"

text \<open>The example world with a second catalog entry, one that has no blobs yet.\<close>

definition two_entry_world :: world where
  "two_entry_world = example_world
     \<lparr>article := (\<lambda>t. Inr [\<lparr>download_url = ''http://figshare/2'', name = ''notes2.tar.gz''\<rparr>,
                             \<lparr>download_url = ''http://figshare/3'', name = ''notes3.tar.gz''\<rparr>])\<rparr>"

section \<open>Facts about the string functions\<close>

lemma find_chr_absent: "c \<notin> set s \<Longrightarrow> find_chr s c = - 1"
  by (induction s) (auto simp: Let_def)

lemma find_chr_present:
  "c \<in> set s \<Longrightarrow> find_chr s c = int (length (takeWhile (\<lambda>x. x \<noteq> c) s))"
  by (induction s) (auto simp: Let_def)

lemma name_wo_ext_no_dot: "CHR ''.'' \<notin> set f \<Longrightarrow> name_wo_ext f = butlast f"
  by (simp add: name_wo_ext_def slice_to_def find_chr_absent butlast_conv_take nat_diff_distrib')

lemma name_wo_ext_dot:
  assumes "CHR ''.'' \<in> set f"
  shows "name_wo_ext f = takeWhile (\<lambda>x. x \<noteq> CHR ''.'') f"
proof -
  have "name_wo_ext f = take (length (takeWhile (\<lambda>x. x \<noteq> CHR ''.'') f)) f"
    using find_chr_present[OF assms] by (simp add: name_wo_ext_def slice_to_def)
  then show ?thesis by (simp add: takeWhile_eq_take[symmetric])
qed

lemma rstrip_append:
  assumes "set t \<subseteq> set cs"
  shows "rstrip (s @ t) cs = rstrip s cs"
proof -
  from assms
  have "dropWhile (\<lambda>c. c \<in> set cs) (rev t @ rev s) = dropWhile (\<lambda>c. c \<in> set cs) (rev s)"
    by (intro dropWhile_append2) auto
  then show ?thesis by (simp add: rstrip_def)
qed

lemma splitext_root_length: "length (splitext_root p) \<le> length p"
  by (simp add: splitext_root_def Let_def)

lemma basename_rstrip_shorter:
  assumes "s \<noteq> []" "last s \<in> set cs" "CHR ''/'' \<notin> set cs"
  shows "length (basename (rstrip s cs)) < length (basename s)"
proof -
  define r where "r = rev s"
  define a where "a = takeWhile (\<lambda>c. c \<in> set cs) r"
  define b where "b = dropWhile (\<lambda>c. c \<in> set cs) r"
  have r: "r = a @ b" by (simp add: a_def b_def)
  have "r \<noteq> []" "hd r \<in> set cs" using assms by (simp_all add: r_def hd_rev)
  then have "a \<noteq> []" by (cases r) (auto simp: a_def)
  have "\<forall>x \<in> set a. x \<noteq> CHR ''/''" using assms(3) by (auto simp: a_def dest: set_takeWhileD)
  then have "takeWhile (\<lambda>c. c \<noteq> CHR ''/'') (a @ b) = a @ takeWhile (\<lambda>c. c \<noteq> CHR ''/'') b"
    by (simp add: takeWhile_append2)
  then have "length (basename s) = length a + length (takeWhile (\<lambda>c. c \<noteq> CHR ''/'') b)"
    using r by (simp add: basename_def r_def[symmetric])
  moreover have "basename (rstrip s cs) = rev (takeWhile (\<lambda>c. c \<noteq> CHR ''/'') b)"
    by (simp add: basename_def rstrip_def b_def r_def)
  ultimately show ?thesis using \<open>a \<noteq> []\<close> by simp
qed

lemma basename_no_slash: "CHR ''/'' \<notin> set (basename p)"
  by (auto simp: basename_def dest: set_takeWhileD)

lemma splitext_root_no_slash: "CHR ''/'' \<notin> set p \<Longrightarrow> CHR ''/'' \<notin> set (splitext_root p)"
  by (auto simp: splitext_root_def Let_def dest: in_set_takeD)

lemma path_join_inj:
  "CHR ''/'' \<notin> set a \<Longrightarrow> CHR ''/'' \<notin> set b \<Longrightarrow> path_join d a = path_join d b \<Longrightarrow> a = b"
  by (cases a; cases b) (auto simp: path_join_def split: if_splits)

section \<open>The Existence Checker\<close>

lemma list_blob_names_trace:
  "trace (snd (list_blob_names w c p)) = trace w @ [Remote (ListBlobNames c p)]"
  by (simp add: list_blob_names_def remote_call_def tick_def emit_def split: option.splits)

text \<open>
  What \<^verbatim>\<open>blob_exists\<close> does in general: one listing, under the base name joined
  with \<^verbatim>\<open>name_wo_ext\<close>; an exception of the listing leaves the function, and the
  answer is whether the listing has an element. For a file name with a dot,
  \<^verbatim>\<open>name_wo_ext\<close> is the name up to its first dot.
\<close>

lemma blob_exists_listing:
  "blob_exists w local_filename container_client base_blob_name =
     (case list_blob_names w container_client
             (path_join base_blob_name (name_wo_ext local_filename)) of
        (Inl e, w') \<Rightarrow> (Inl e, w')
      | (Inr blobs_list, w') \<Rightarrow> (Inr (blobs_list \<noteq> []), w'))"
  by (simp add: blob_exists_def split: prod.splits sum.splits list.splits)

lemma blob_exists_one_call:
  "trace (snd (blob_exists w local_filename container_client base_blob_name)) =
     trace w @ [Remote (ListBlobNames container_client
                          (path_join base_blob_name (name_wo_ext local_filename)))]"
  using list_blob_names_trace[of w container_client
          "path_join base_blob_name (name_wo_ext local_filename)"]
  by (cases "list_blob_names w container_client
               (path_join base_blob_name (name_wo_ext local_filename))")
     (auto simp: blob_exists_listing split: sum.splits)

text \<open>
  C9. For a file name without a dot, \<^verbatim>\<open>find\<close> returns \<open>-1\<close> and the slice drops
  the last character: the one listing that \<^verbatim>\<open>blob_exists\<close> asks for is the
  listing under the base name joined with the file name less its last character,
  which for a base name such as the program's is \<open>base/name-less-last-character\<close>;
  that is not the file name itself unless the name is empty.
\<close>

theorem blob_exists_no_dot:
  assumes "CHR ''.'' \<notin> set local_filename"
  shows "name_wo_ext local_filename = butlast local_filename
       \<and> blob_exists w local_filename container_client base_blob_name =
           (case list_blob_names w container_client
                   (path_join base_blob_name (butlast local_filename)) of
              (Inl e, w') \<Rightarrow> (Inl e, w')
            | (Inr blobs_list, w') \<Rightarrow> (Inr (blobs_list \<noteq> []), w'))
       \<and> trace (snd (blob_exists w local_filename container_client base_blob_name)) =
           trace w @ [Remote (ListBlobNames container_client
                                (path_join base_blob_name (butlast local_filename)))]
       \<and> (local_filename \<noteq> [] \<longrightarrow> butlast local_filename \<noteq> local_filename)
       \<and> (base_blob_name \<noteq> [] \<and> \<not> suffix ''/'' base_blob_name \<and> \<not> prefix ''/'' local_filename
            \<longrightarrow> path_join base_blob_name (butlast local_filename)
                 = base_blob_name @ ''/'' @ butlast local_filename)"
proof -
  have n: "name_wo_ext local_filename = butlast local_filename"
    by (rule name_wo_ext_no_dot[OF assms])
  have b: "blob_exists w local_filename container_client base_blob_name =
           (case list_blob_names w container_client
                   (path_join base_blob_name (butlast local_filename)) of
              (Inl e, w') \<Rightarrow> (Inl e, w')
            | (Inr blobs_list, w') \<Rightarrow> (Inr (blobs_list \<noteq> []), w'))"
    by (simp add: blob_exists_def n split: prod.splits sum.splits list.splits)
  have t: "trace (snd (blob_exists w local_filename container_client base_blob_name)) =
           trace w @ [Remote (ListBlobNames container_client
                                (path_join base_blob_name (butlast local_filename)))]"
    using list_blob_names_trace[of w container_client
            "path_join base_blob_name (butlast local_filename)"]
    by (cases "list_blob_names w container_client
                 (path_join base_blob_name (butlast local_filename))")
       (auto simp: b split: sum.splits)
  have d: "local_filename \<noteq> [] \<longrightarrow> butlast local_filename \<noteq> local_filename"
    by (cases local_filename rule: rev_cases) simp_all
  have j: "base_blob_name \<noteq> [] \<and> \<not> suffix ''/'' base_blob_name \<and> \<not> prefix ''/'' local_filename
            \<longrightarrow> path_join base_blob_name (butlast local_filename)
                 = base_blob_name @ ''/'' @ butlast local_filename"
    by (cases local_filename) (auto simp: path_join_def)
  from n b t d j show ?thesis by blast
qed

theorem blob_exists_no_dot_witness:
  "CHR ''.'' \<notin> set ''notes1''
   \<and> name_wo_ext ''notes1'' = ''notes''
   \<and> trace (snd (blob_exists example_world ''notes1'' CONTAINER_NAME BASE_BLOB_NAME)) =
       [Remote (ListBlobNames ''polyp-datasets'' ''real-colon-dataset/notes'')]"
proof -
  have h: "CHR ''.'' \<notin> set ''notes1''" by simp
  have e: "trace example_world = []" by (simp add: example_world_def)
  have j: "path_join BASE_BLOB_NAME ''notes'' = ''real-colon-dataset/notes''"
    by (simp add: path_join_def BASE_BLOB_NAME_def suffix_to_prefix)
  from blob_exists_no_dot[OF h, of example_world CONTAINER_NAME BASE_BLOB_NAME]
  have "name_wo_ext ''notes1'' = butlast ''notes1''"
    and "trace (snd (blob_exists example_world ''notes1'' CONTAINER_NAME BASE_BLOB_NAME)) =
           trace example_world @ [Remote (ListBlobNames CONTAINER_NAME
                                    (path_join BASE_BLOB_NAME (butlast ''notes1'')))]"
    by blast+
  then show ?thesis by (simp add: e j CONTAINER_NAME_def)
qed

text \<open>
  C7, at a failing input. The catalog entry \<^verbatim>\<open>notes1\<close> has no extension, and the
  container holds the blobs of another entry, \<^verbatim>\<open>notes2.tar.gz\<close>, and none under
  \<^verbatim>\<open>real-colon-dataset/notes1\<close>. \<^verbatim>\<open>blob_exists\<close> answers \<^verbatim>\<open>True\<close>.
\<close>

theorem blob_exists_false_positive:
  "map_of (containers example_world) CONTAINER_NAME
     = Some [(''real-colon-dataset/notes2/a.txt'', ''x'')]
   \<and> \<not> prefix (BASE_BLOB_NAME @ ''/'' @ ''notes1'') ''real-colon-dataset/notes2/a.txt''
   \<and> fst (blob_exists example_world ''notes1'' CONTAINER_NAME BASE_BLOB_NAME) = Inr True"
  by (simp add: example_world_def CONTAINER_NAME_def BASE_BLOB_NAME_def blob_exists_def
        list_blob_names_def remote_call_def tick_def emit_def name_wo_ext_def slice_to_def
        path_join_def suffix_to_prefix Let_def)

section \<open>The Extractor's directory name\<close>

text \<open>
  C10. \<^verbatim>\<open>rstrip('.tar.gz')\<close> strips characters, not a suffix: for an archive
  \<open>stem.tar.gz\<close> whose stem ends in one of \<open>. t a r g z\<close> the stripping goes on
  into the stem, and the directory whose existence decides whether to extract is
  named by a string shorter than the stem's last component, so it is another name
  and another path.
\<close>

theorem extracted_folder_name_strips_stem:
  assumes "file_path = stem @ ''.tar.gz''" and "stem \<noteq> []" and "last stem \<in> set ''.tar.gz''"
  shows "rstrip file_path ''.tar.gz'' = rstrip stem ''.tar.gz''
       \<and> length (extracted_folder_name file_path) < length (basename stem)
       \<and> extracted_folder_name file_path \<noteq> basename stem
       \<and> extracted_folder_name file_path \<noteq> stem
       \<and> path_join download_dir (extracted_folder_name file_path)
           \<noteq> path_join download_dir (basename stem)"
proof -
  have r: "rstrip file_path ''.tar.gz'' = rstrip stem ''.tar.gz''"
    unfolding assms(1) by (rule rstrip_append) simp
  have "length (extracted_folder_name file_path) \<le> length (basename (rstrip stem ''.tar.gz''))"
    by (simp add: extracted_folder_name_def r splitext_root_length)
  also have "\<dots> < length (basename stem)"
    using assms(2,3) by (intro basename_rstrip_shorter) simp_all
  finally have l: "length (extracted_folder_name file_path) < length (basename stem)" .
  then have ne: "extracted_folder_name file_path \<noteq> basename stem" by auto
  have "length (basename stem) \<le> length stem"
    using length_takeWhile_le[of "\<lambda>c. c \<noteq> CHR ''/''" "rev stem"] by (simp add: basename_def)
  with l have ns: "extracted_folder_name file_path \<noteq> stem" by auto
  have "CHR ''/'' \<notin> set (extracted_folder_name file_path)"
    by (simp add: extracted_folder_name_def splitext_root_no_slash basename_no_slash)
  with ne have "path_join download_dir (extracted_folder_name file_path)
           \<noteq> path_join download_dir (basename stem)"
    using path_join_inj basename_no_slash by blast
  with r l ne ns show ?thesis by blast
qed

theorem extracted_folder_name_strips_stem_witness:
  "''data.tar.gz'' = ''data'' @ ''.tar.gz'' \<and> ''data'' \<noteq> [] \<and> last ''data'' \<in> set ''.tar.gz''
   \<and> extracted_folder_name ''data.tar.gz'' = ''d''
   \<and> path_join ''/dataset'' (extracted_folder_name ''data.tar.gz'')
       \<noteq> path_join ''/dataset'' (basename ''data'')"
  using extracted_folder_name_strips_stem[of "''data.tar.gz''" "''data''" "''/dataset''"]
  by (simp add: extracted_folder_name_def rstrip_def basename_def splitext_root_def)

section \<open>The Downloader\<close>

lemma write_file_frame:
  "write_file w p d = Inr w' \<Longrightarrow> trace w' = trace w \<and> ticks w' = ticks w \<and> cwd w' = cwd w \<and> net w' = net w"
  by (auto simp: write_file_def Let_def split: option.splits node.splits)










section \<open>Facts about the file system\<close>

lemma map_of_snoc_fresh: "map_of es c = None \<Longrightarrow> map_of (es @ [(c, n)]) k = (if k = c then Some n else map_of es k)"
  by (auto simp: map_add_def split: option.splits)



lemma fs_del_gone: "cs \<noteq> [] \<Longrightarrow> fs_get (fs_del r cs) cs = None"
proof (induction r cs rule: fs_del.induct)
  case (1 n) then show ?case by simp
next
  case (2 d c cs) then show ?case by simp
next
  case (3 es c cs)
  then show ?case by (auto simp: update_conv' delete_conv' split: option.splits)
qed


section \<open>The Extractor\<close>


lemma extract_member_frame:
  "extract_member w path m = Inr w' \<Longrightarrow>
   cwd w' = cwd w \<and> trace w' = trace w \<and> containers w' = containers w \<and> ticks w' = ticks w
   \<and> fault w' = fault w \<and> untar w' = untar w \<and> net w' = net w \<and> tmp_name w' = tmp_name w"
  by (cases m) (auto simp: write_file_def Let_def split: option.splits node.splits)


lemma extractall_frame:
  "extractall w ms path = (r, w') \<Longrightarrow>
   cwd w' = cwd w \<and> trace w' = trace w \<and> containers w' = containers w \<and> ticks w' = ticks w
   \<and> fault w' = fault w \<and> untar w' = untar w \<and> net w' = net w \<and> tmp_name w' = tmp_name w"
proof (induction ms arbitrary: w)
  case Nil then show ?case by simp
next
  case (Cons m ms)
  show ?case
  proof (cases "extract_member w path m")
    case (Inl e) with Cons.prems show ?thesis by simp
  next
    case (Inr w1)
    with Cons.prems have "extractall w1 ms path = (r, w')" by simp
    from Cons.IH[OF this] extract_member_frame[OF Inr] show ?thesis by simp
  qed
qed





section \<open>Facts about paths below a directory\<close>

lemma split_slash_plain: "CHR ''/'' \<notin> set f \<Longrightarrow> split_slash f = [f]"
  by (induction f) auto

lemma split_slash_nonempty: "split_slash s \<noteq> []"
  by (induction s) (auto split: list.splits)

lemma split_slash_snoc:
  "CHR ''/'' \<notin> set f \<Longrightarrow> split_slash (a @ CHR ''/'' # f) = split_slash a @ [f]"
  using split_slash_nonempty
  by (induction a) (auto simp: split_slash_plain split: list.splits)

lemma norm_comps_snoc_plain: "plain f \<Longrightarrow> norm_comps (xs @ [f]) = norm_comps xs @ [f]"
  by (simp add: norm_comps_def norm_step_def plain_def)

lemma norm_comps_snoc_empty: "norm_comps (xs @ [[]]) = norm_comps xs"
  by (simp add: norm_comps_def norm_step_def)

lemma norm_split_join:
  assumes "plain f"
  shows "norm_comps (split_slash (if A = [] \<or> suffix ''/'' A then A @ f else A @ ''/'' @ f))
         = norm_comps (split_slash A) @ [f]"
proof -
  from assms have ns: "CHR ''/'' \<notin> set f" by (simp add: plain_def)
  show ?thesis
  proof (cases "A = []")
    case True
    then show ?thesis using assms ns
      by (simp add: split_slash_plain) (simp add: norm_comps_def norm_step_def plain_def)
  next
    case False
    show ?thesis
    proof (cases "suffix ''/'' A")
      case True
      then obtain a where A: "A = a @ ''/''" by (auto simp: suffix_def)
      have "split_slash A = split_slash a @ [[]]" unfolding A using split_slash_snoc[of "[]" a] by simp
      moreover have "split_slash (A @ f) = split_slash a @ [f]" unfolding A using split_slash_snoc[OF ns, of a] by simp
      ultimately show ?thesis using True False assms by (simp add: norm_comps_snoc_plain norm_comps_snoc_empty)
    next
      case nsuf: False
      have "split_slash (A @ ''/'' @ f) = split_slash A @ [f]" using split_slash_snoc[OF ns, of A] by simp
      then show ?thesis using nsuf False assms by (simp add: norm_comps_snoc_plain)
    qed
  qed
qed

lemma path_join_plain: "plain f \<Longrightarrow> path_join A f = (if A = [] \<or> suffix ''/'' A then A @ f else A @ ''/'' @ f)"
  by (cases f) (auto simp: path_join_def plain_def)

lemma path_join_assoc:
  assumes "plain f"
  shows "path_join c (path_join r f) = path_join (path_join c r) f"
proof -
  from assms obtain x xs where f: "f = x # xs" "x \<noteq> CHR ''/''" by (cases f) (auto simp: plain_def)
  show ?thesis
  proof (cases "prefix ''/'' r")
    case True
    then have "prefix ''/'' (path_join r f)" by (cases r) (auto simp: path_join_def f)
    with True show ?thesis by (simp add: path_join_def[of c])
  next
    case False
    show ?thesis
    proof (cases r)
      case Nil
      then show ?thesis using f by (auto simp: path_join_def suffix_def)
    next
      case (Cons y ys)
      with False have y: "y \<noteq> CHR ''/''" by simp
      have s: "\<And>p. suffix ''/'' (p @ r) = suffix ''/'' r" 
        using Cons by (metis append_is_Nil_conv last_appendR list.distinct(1) suffix_Cons suffix_Nil suffix_append suffix_bot.extremum_uniqueI)
      show ?thesis using f y Cons s[of c] s[of "c @ ''/''"] by (auto simp: path_join_def)
    qed
  qed
qed

lemma abs_comps_join:
  assumes "plain f"
  shows "abs_comps c (path_join r f) = abs_comps c r @ [f]"
proof -
  have "abs_comps c (path_join r f) = norm_comps (split_slash (path_join (path_join c r) f))"
    by (simp only: abs_comps_def path_join_assoc[OF assms])
  also have "\<dots> = norm_comps (split_slash (path_join c r)) @ [f]"
    by (simp only: path_join_plain[OF assms] norm_split_join[OF assms])
  finally show ?thesis by (simp only: abs_comps_def)
qed

lemma common_prefix_append: "common_prefix xs (xs @ ys) = xs"
  by (induction xs) auto

lemma relpath_below:
  assumes "abs_comps c p = abs_comps c start @ rel" "rel \<noteq> []"
  shows "relpath c p start = slash_join rel"
  using assms by (simp add: relpath_def Let_def common_prefix_append)


section \<open>The upload phase\<close>

lemma upload_blob_ok:
  assumes "upload_blob w cc p d = (Inr u, w')"
  shows "blobs_in w' cc = blobs_in w cc @ [(p, d)]
       \<and> trace w' = trace w @ [Remote (UploadBlob cc p)] \<and> cwd w' = cwd w \<and> fs w' = fs w"
  using assms
  by (auto simp: upload_blob_def remote_call_def tick_def emit_def blobs_in_def update_conv'
           split: option.splits if_splits)

lemma uploads_done_nil: "uploads_done cc base w n [] w n"
  by (simp add: uploads_done_def)

lemma uploads_done_trans:
  "uploads_done cc base w n xs w1 n1 \<Longrightarrow> uploads_done cc base w1 n1 ys w2 n2 \<Longrightarrow>
   uploads_done cc base w n (xs @ ys) w2 n2"
  by (simp add: uploads_done_def)

lemma slash_join_no_leading_slash:
  "comps \<noteq> [] \<Longrightarrow> list_all plain comps \<Longrightarrow> \<not> prefix ''/'' (slash_join comps)"
  by (induction comps rule: slash_join.induct) (auto simp: plain_def neq_Nil_conv)

lemma blob_path_eq:
  assumes "base \<noteq> []" "\<not> suffix ''/'' base" "list_all plain pre" "plain f"
  shows "path_join base (slash_join (pre @ [f])) = fst (blob_of base (pre @ [f], d))"
  using slash_join_no_leading_slash[of "pre @ [f]"] assms
  by (simp add: path_join_def blob_of_def)

lemma upload_files_done:
  assumes "base \<noteq> []" "\<not> suffix ''/'' base" "list_all plain pre"
  shows "list_all (\<lambda>x. plain (fst x)) files \<Longrightarrow>
   abs_comps (cwd w) root = abs_comps (cwd w) tmpdir @ pre \<Longrightarrow>
   upload_files w cc base tmpdir root files n = (Inr n', w') \<Longrightarrow>
   uploads_done cc base w n (map (\<lambda>x. (pre @ [fst x], snd x)) files) w' n'"
proof (induction files arbitrary: w n)
  case Nil
  then show ?case by (simp add: uploads_done_nil)
next
  case (Cons x files)
  obtain f d where x: "x = (f, d)" by (cases x)
  from Cons.prems(1) x have pf: "plain f" by simp
  have ac: "abs_comps (cwd w) (path_join root f) = abs_comps (cwd w) tmpdir @ (pre @ [f])"
    using abs_comps_join[OF pf, of "cwd w" root] Cons.prems(2) by simp
  have rp: "relpath (cwd w) (path_join root f) tmpdir = slash_join (pre @ [f])"
    by (rule relpath_below[OF ac]) simp
  have bp: "path_join base (relpath (cwd w) (path_join root f) tmpdir) = fst (blob_of base (pre @ [f], d))"
    unfolding rp by (rule blob_path_eq[OF assms pf])
  from Cons.prems(3) x bp obtain w1 where
    u: "upload_blob w cc (fst (blob_of base (pre @ [f], d))) d = (Inr (), w1)"
    and r: "upload_files w1 cc base tmpdir root files (n + 1) = (Inr n', w')"
    by (auto simp: Let_def split: prod.splits sum.splits)
  from upload_blob_ok[OF u] have
    one: "uploads_done cc base w n [(pre @ [f], d)] w1 (n + 1)"
    by (simp add: uploads_done_def blob_of_def)
  from upload_blob_ok[OF u] Cons.prems(2) have "abs_comps (cwd w1) root = abs_comps (cwd w1) tmpdir @ pre" by simp
  from Cons.IH[OF _ this r] Cons.prems(1) have
    rest: "uploads_done cc base w1 (n + 1) (map (\<lambda>x. (pre @ [fst x], snd x)) files) w' n'" by simp
  from uploads_done_trans[OF one rest] x show ?case by simp
qed

lemma upload_walk_append:
  "upload_walk w cc base tmpdir (xs @ ys) n =
     (case upload_walk w cc base tmpdir xs n of
        (Inl e, w') \<Rightarrow> (Inl e, w')
      | (Inr n', w') \<Rightarrow> upload_walk w' cc base tmpdir ys n')"
proof (induction xs arbitrary: w n)
  case Nil then show ?case by simp
next
  case (Cons x xs)
  obtain root dirs files where "x = (root, dirs, files)" by (cases x)
  with Cons show ?case by (auto split: prod.splits sum.splits)
qed


lemma walk_files_plain:
  "list_all (\<lambda>e. plain (fst e) \<and> wf_node (snd e)) es \<Longrightarrow>
   list_all (\<lambda>x. plain (fst x)) [(n, d). (n, File d) \<leftarrow> es]"
  by (induction es) (auto split: node.splits)

lemma tree_files_here:
  "[(pre @ [n], d). (n, File d) \<leftarrow> es] = map (\<lambda>x. (pre @ [fst x], snd x)) [(n, d). (n, File d) \<leftarrow> es]"
  by (induction es) (auto split: node.splits)

lemma upload_walk_tree:
  assumes base: "base \<noteq> []" "\<not> suffix ''/'' base"
  shows "wf_node t \<Longrightarrow> list_all plain pre \<Longrightarrow>
   abs_comps (cwd w) root = abs_comps (cwd w) tmpdir @ pre \<Longrightarrow>
   upload_walk w cc base tmpdir (walk root t) n = (Inr n', w') \<Longrightarrow>
   uploads_done cc base w n (tree_files pre t) w' n'"
proof (induction root t arbitrary: w n pre n' w' rule: walk.induct)
  case (1 root d)
  then show ?case by (simp add: uploads_done_nil)
next
  case (2 root es)
  let ?files = "[(n, d). (n, File d) \<leftarrow> es]"
  let ?sub = "\<lambda>xs. concat (map (\<lambda>e. walk (path_join root (fst e)) (snd e)) xs)"
  let ?subf = "\<lambda>xs. concat (map (\<lambda>e. tree_files (pre @ [fst e]) (snd e)) xs)"
  from "2.prems"(1) have wf: "list_all (\<lambda>e. plain (fst e) \<and> wf_node (snd e)) es" by simp
  from "2.prems"(4) obtain n1 w1 where
    f: "upload_files w cc base tmpdir root ?files n = (Inr n1, w1)"
    and s: "upload_walk w1 cc base tmpdir (?sub es) n1 = (Inr n', w')"
    by (auto split: prod.splits sum.splits)
  from upload_files_done[OF base "2.prems"(2) walk_files_plain[OF wf] "2.prems"(3) f]
  have here: "uploads_done cc base w n (map (\<lambda>x. (pre @ [fst x], snd x)) ?files) w1 n1" .
  then have c1: "cwd w1 = cwd w" by (simp add: uploads_done_def)
  have inner: "set xs \<subseteq> set es \<Longrightarrow> cwd wa = cwd w \<Longrightarrow>
      upload_walk wa cc base tmpdir (?sub xs) na = (Inr n', w') \<Longrightarrow>
      uploads_done cc base wa na (?subf xs) w' n'" for xs wa na
  proof (induction xs arbitrary: wa na)
    case Nil
    then show ?case by (simp add: uploads_done_nil)
  next
    case (Cons e xs)
    from Cons.prems(1) have e: "e \<in> set es" by simp
    with wf have pe: "plain (fst e)" and we: "wf_node (snd e)" by (auto simp: list_all_iff)
    from Cons.prems(3) obtain n2 w2 where
      a: "upload_walk wa cc base tmpdir (walk (path_join root (fst e)) (snd e)) na = (Inr n2, w2)"
      and b: "upload_walk w2 cc base tmpdir (?sub xs) n2 = (Inr n', w')"
      by (auto simp: upload_walk_append split: prod.splits sum.splits)
    have pp: "list_all plain (pre @ [fst e])" using "2.prems"(2) pe by simp
    have ac: "abs_comps (cwd wa) (path_join root (fst e)) = abs_comps (cwd wa) tmpdir @ (pre @ [fst e])"
      using abs_comps_join[OF pe, of "cwd wa" root] "2.prems"(3) Cons.prems(2) by simp
    from "2.IH"[OF e we pp ac a]
    have d1: "uploads_done cc base wa na (tree_files (pre @ [fst e]) (snd e)) w2 n2" .
    then have "cwd w2 = cwd w" using Cons.prems(2) by (simp add: uploads_done_def)
    from Cons.IH[OF _ this b] Cons.prems(1)
    have d2: "uploads_done cc base w2 n2 (?subf xs) w' n'" by simp
    from uploads_done_trans[OF d1 d2] show ?case by simp
  qed
  from inner[OF subset_refl c1 s] have below: "uploads_done cc base w1 n1 (?subf es) w' n'" .
  from uploads_done_trans[OF here below] show ?case by (simp add: tree_files_here)
qed

lemma tree_files_count:
  "length (tree_files pre t) + (case t of File d \<Rightarrow> 1 | Dir es \<Rightarrow> 0) = count_files t"
proof (induction pre t rule: tree_files.induct)
  case (1 pre d) then show ?case by simp
next
  case (2 pre es)
  have "length [(pre @ [n], d). (n, File d) \<leftarrow> xs]
        + length (concat (map (\<lambda>e. tree_files (pre @ [fst e]) (snd e)) xs))
        = sum_list (map (\<lambda>e. count_files (snd e)) xs)" if "set xs \<subseteq> set es" for xs
    using that
  proof (induction xs)
    case Nil then show ?case by simp
  next
    case (Cons e xs)
    then have "e \<in> set es" by simp
    from "2.IH"[OF this] Cons show ?case by (cases e; cases "snd e") auto
  qed
  from this[OF subset_refl] show ?case by simp
qed


section \<open>The Per-File Pipeline\<close>

lemma attempt_download_cwd: "attempt_download w url p = (r, w') \<Longrightarrow> cwd w' = cwd w"
  by (auto simp: attempt_download_def Let_def tick_def emit_def
           split: response.splits sum.splits option.splits dest!: write_file_frame)

lemma download_loop_cwd: "download_loop w url p a = (r, w') \<Longrightarrow> cwd w' = cwd w"
proof (induction w url p a rule: download_loop.induct)
  case (1 w url p a)
  show ?case
  proof (cases "a < max_attempts")
    case False
    with "1.prems" show ?thesis by (auto simp: download_loop.simps[of w] emit_def)
  next
    case True
    obtain x w1 where ad: "attempt_download w url p = (x, w1)" by (cases "attempt_download w url p")
    show ?thesis
    proof (cases x)
      case (Inr u)
      with True ad "1.prems" attempt_download_cwd[OF ad] show ?thesis
        by (auto simp: download_loop.simps[of w])
    next
      case (Inl e)
      with True ad "1.prems" have "download_loop (on_failure e w1) url p (a + 1) = (r, w')"
        by (simp add: download_loop.simps[of w])
      from "1.IH"[OF True ad[symmetric] Inl this] attempt_download_cwd[OF ad]
      show ?thesis by (simp add: on_failure_def)
    qed
  qed
qed

lemma os_remove_cwd: "os_remove w p = (r, w') \<Longrightarrow> cwd w' = cwd w"
  by (auto simp: os_remove_def Let_def split: option.splits node.splits)

lemma download_and_extract_cwd:
  assumes "download_and_extract w tmpdir url fname = (r, w')"
  shows "cwd w' = cwd w"
proof -
  let ?p = "path_join tmpdir fname"
  obtain r1 w1 where d: "download_loop w url ?p 0 = (r1, w1)" by (cases "download_loop w url ?p 0")
  have c1: "cwd w1 = cwd w" by (rule download_loop_cwd[OF d])
  let ?w2 = "emit (LogTiming ''downloading'' fname) w1"
  show ?thesis
  proof (cases "tarfile_open ?w2 ?p")
    case (Inl e)
    with assms d c1 show ?thesis by (auto simp: download_and_extract_def download_file_def Let_def emit_def)
  next
    case (Inr ms)
    obtain r3 w3 where x: "extractall ?w2 ms tmpdir = (r3, w3)" by (cases "extractall ?w2 ms tmpdir")
    from extractall_frame[OF x] c1 have c3: "cwd w3 = cwd w" by (simp add: emit_def)
    show ?thesis
    proof (cases r3)
      case (Inl e)
      with assms d Inr x c3 show ?thesis
        by (auto simp: download_and_extract_def download_file_def Let_def)
    next
      case (Inr u)
      with assms d \<open>tarfile_open ?w2 ?p = Inr ms\<close> x
      have "os_remove (emit (LogTiming ''extracting'' fname) w3) ?p = (r, w')"
        by (simp add: download_and_extract_def download_file_def Let_def)
      from os_remove_cwd[OF this] c3 show ?thesis by (simp add: emit_def)
    qed
  qed
qed

lemma upload_blob_cwd: "upload_blob w cc p d = (r, w') \<Longrightarrow> cwd w' = cwd w"
  by (auto simp: upload_blob_def remote_call_def tick_def emit_def split: option.splits if_splits)

lemma upload_files_cwd: "upload_files w cc base tmpdir root files n = (r, w') \<Longrightarrow> cwd w' = cwd w"
proof (induction files arbitrary: w n)
  case Nil then show ?case by simp
next
  case (Cons x files)
  obtain f d where x: "x = (f, d)" by (cases x)
  let ?bp = "path_join base (relpath (cwd w) (path_join root f) tmpdir)"
  obtain r1 w1 where u: "upload_blob w cc ?bp d = (r1, w1)" by (cases "upload_blob w cc ?bp d")
  from upload_blob_cwd[OF u] have c: "cwd w1 = cwd w" .
  show ?case
  proof (cases r1)
    case (Inl e)
    with Cons.prems x u c show ?thesis by (auto simp: Let_def)
  next
    case (Inr v)
    with Cons.prems x u have "upload_files w1 cc base tmpdir root files (n + 1) = (r, w')"
      by (simp add: Let_def)
    from Cons.IH[OF this] c show ?thesis by simp
  qed
qed

lemma upload_walk_cwd: "upload_walk w cc base tmpdir xs n = (r, w') \<Longrightarrow> cwd w' = cwd w"
proof (induction xs arbitrary: w n)
  case Nil then show ?case by simp
next
  case (Cons x xs)
  obtain root dirs files where x: "x = (root, dirs, files)" by (cases x)
  obtain r1 w1 where u: "upload_files w cc base tmpdir root files n = (r1, w1)"
    by (cases "upload_files w cc base tmpdir root files n")
  from upload_files_cwd[OF u] have c: "cwd w1 = cwd w" .
  show ?case
  proof (cases r1)
    case (Inl e)
    with Cons.prems x u c show ?thesis by auto
  next
    case (Inr k)
    with Cons.prems x u have "upload_walk w1 cc base tmpdir xs k = (r, w')" by simp
    from Cons.IH[OF this] c show ?thesis by simp
  qed
qed

lemma upload_phase_cwd: "upload_phase w tmpdir fname cc base = (r, w') \<Longrightarrow> cwd w' = cwd w"
  by (auto simp: upload_phase_def emit_def split: prod.splits sum.splits dest: upload_walk_cwd)

lemma pipeline_body_cwd:
  "pipeline_body w tmpdir url fname cc base = (r, w') \<Longrightarrow> cwd w' = cwd w"
  by (auto simp: pipeline_body_def split: prod.splits sum.splits
           dest!: upload_phase_cwd download_and_extract_cwd)

lemma fs_put_get: "fs_put r cs n = Some r' \<Longrightarrow> fs_get r' cs = Some n"
proof (induction r cs n arbitrary: r' rule: fs_put.induct)
  case (1 n new) then show ?case by simp
next
  case (2 d c cs new) then show ?case by simp
next
  case (3 es c cs new)
  then show ?case
    by (auto simp: update_conv' map_of_snoc_fresh split: option.splits if_splits)
qed

lemma mkdtemp_fresh:
  assumes "mkdtemp w = Inr (tmpdir, w1)"
  shows "\<not> path_exists w tmpdir \<and> fs_get (fs w1) (abs_comps (cwd w1) tmpdir) = Some (Dir [])
       \<and> cwd w1 = cwd w \<and> abs_comps (cwd w) tmpdir \<noteq> []"
  using assms
  by (auto simp: mkdtemp_def Let_def path_exists_def tick_def fs_put_get split: option.splits)

lemma get_container_fs: "get_container w url cn = (r, w') \<Longrightarrow> fs w' = fs w \<and> cwd w' = cwd w"
  by (auto simp: get_container_def create_container_def remote_call_def tick_def emit_def Let_def
           split: option.splits if_splits prod.splits)


lemmas run_defs = download_to_blob_def
        get_container_def remote_call_def tick_def emit_def with_tmpdir_def mkdtemp_def
        pipeline_body_def download_and_extract_def download_file_def download_loop.simps
        attempt_download_def on_failure_def write_file_def tarfile_open_def os_remove_def
        upload_phase_def os_walk_def upload_blob_def relpath_def
        abs_comps_def path_join_def norm_comps_def norm_step_def suffix_to_prefix
        str_nat.simps max_attempts_def Let_def cleanup_def path_exists_def




text \<open>
  C8. Whatever \<^verbatim>\<open>download_to_blob\<close> does, no scratch directory is left. When the
  first statements raise, or the scratch directory cannot be created, nothing was
  created and the file system is as before. Otherwise the directory did not exist
  before, is created empty before the download, and does not exist when the
  function returns, be it a count or \<open>-1\<close>.
\<close>

theorem scratch_directory_removed:
  assumes "download_to_blob w (file_url, file_name, storage_acct_url, container_name, base_blob_name)
             = (r, w')"
  shows "case get_container w storage_acct_url container_name of
           (Inl e, w0) \<Rightarrow> r = Inl e \<and> fs w' = fs w
         | (Inr container_client, w0) \<Rightarrow>
             (case mkdtemp w0 of
                Inl e \<Rightarrow> r = Inr (- 1) \<and> fs w' = fs w
              | Inr (tmpdir, w1) \<Rightarrow>
                  \<not> path_exists w0 tmpdir
                  \<and> fs_get (fs w1) (abs_comps (cwd w1) tmpdir) = Some (Dir [])
                  \<and> (\<exists>n. r = Inr n)
                  \<and> \<not> path_exists w' tmpdir)"
proof (cases "get_container w storage_acct_url container_name")
  case (Pair x w0)
  note gc = get_container_fs[OF Pair]
  show ?thesis
  proof (cases x)
    case (Inl e)
    with Pair assms gc show ?thesis by (auto simp: download_to_blob_def)
  next
    case (Inr cc)
    show ?thesis
    proof (cases "mkdtemp w0")
      case (Inl e)
      with Pair Inr assms gc show ?thesis
        by (auto simp: download_to_blob_def with_tmpdir_def emit_def)
    next
      case mk: (Inr p)
      obtain tmpdir w1 where p: "p = (tmpdir, w1)" by (cases p)
      from mk p have m: "mkdtemp w0 = Inr (tmpdir, w1)" by simp
      note fresh = mkdtemp_fresh[OF m]
      obtain x2 w2 where pb: "pipeline_body w1 tmpdir file_url file_name cc base_blob_name = (x2, w2)"
        by (cases "pipeline_body w1 tmpdir file_url file_name cc base_blob_name")
      from pipeline_body_cwd[OF pb] fresh have c2: "cwd w2 = cwd w0" by simp
      have gone: "\<not> path_exists (cleanup w2 tmpdir) tmpdir"
        using fresh c2 by (simp add: path_exists_def cleanup_def fs_del_gone)
      have "(\<exists>n. r = Inr n) \<and> \<not> path_exists w' tmpdir"
        using assms Pair Inr m pb gone
        by (cases x2) (auto simp: download_to_blob_def with_tmpdir_def emit_def path_exists_def)
      with Pair Inr m fresh show ?thesis by auto
    qed
  qed
qed

theorem scratch_directory_removed_witness:
  "\<not> path_exists example_world ''/tmp/tmp3''
   \<and> fst (download_to_blob example_world example_task) = Inr 3
   \<and> \<not> path_exists (snd (download_to_blob example_world example_task)) ''/tmp/tmp3''
   \<and> fst (download_to_blob corrupt_world example_task) = Inr (- 1)
   \<and> \<not> path_exists (snd (download_to_blob corrupt_world example_task)) ''/tmp/tmp3''"
proof -
  have g: "\<exists>w0 w1. get_container example_world (Some ''https://account.blob.core.windows.net'')
                 ''polyp-datasets'' = (Inr ''polyp-datasets'', w0)
             \<and> mkdtemp w0 = Inr (''/tmp/tmp3'', w1)"
    by (simp add: example_world_def run_defs)
  have g': "\<exists>w0 w1. get_container corrupt_world (Some ''https://account.blob.core.windows.net'')
                 ''polyp-datasets'' = (Inr ''polyp-datasets'', w0)
             \<and> mkdtemp w0 = Inr (''/tmp/tmp3'', w1)"
    by (simp add: corrupt_world_def example_world_def run_defs)
  have r: "fst (download_to_blob example_world example_task) = Inr 3"
    by (simp add: example_task_def example_world_def example_members_def run_defs)
  have r': "fst (download_to_blob corrupt_world example_task) = Inr (- 1)"
    by (simp add: example_task_def corrupt_world_def example_world_def run_defs)
  have e: "\<not> path_exists example_world ''/tmp/tmp3''"
    by (simp add: example_world_def run_defs)
  from g obtain w0 w1 where
    a: "get_container example_world (Some ''https://account.blob.core.windows.net'')
                 ''polyp-datasets'' = (Inr ''polyp-datasets'', w0)"
    and b: "mkdtemp w0 = Inr (''/tmp/tmp3'', w1)" by blast
  from g' obtain w0' w1' where
    a': "get_container corrupt_world (Some ''https://account.blob.core.windows.net'')
                 ''polyp-datasets'' = (Inr ''polyp-datasets'', w0')"
    and b': "mkdtemp w0' = Inr (''/tmp/tmp3'', w1')" by blast
  have "\<not> path_exists (snd (download_to_blob example_world example_task)) ''/tmp/tmp3''"
    using scratch_directory_removed[of example_world "''http://figshare/2''" "''notes2.tar.gz''"
            "Some ''https://account.blob.core.windows.net''" "''polyp-datasets''"
            "''real-colon-dataset''" "fst (download_to_blob example_world example_task)"
            "snd (download_to_blob example_world example_task)"] a b
    by (simp add: example_task_def)
  moreover
  have "\<not> path_exists (snd (download_to_blob corrupt_world example_task)) ''/tmp/tmp3''"
    using scratch_directory_removed[of corrupt_world "''http://figshare/2''" "''notes2.tar.gz''"
            "Some ''https://account.blob.core.windows.net''" "''polyp-datasets''"
            "''real-colon-dataset''" "fst (download_to_blob corrupt_world example_task)"
            "snd (download_to_blob corrupt_world example_task)"] a' b'
    by (simp add: example_task_def)
  ultimately show ?thesis using r r' e by blast
qed


text \<open>
  C5. Let the scratch directory hold the well-formed tree \<open>Dir es\<close> when the upload
  phase begins, and let no upload raise. Then the upload phase makes one upload
  call for each regular file of the tree and nothing else, the container gains
  exactly these blobs, each named by the base name, a slash and the path of the
  file relative to the scratch directory, their number is the number of regular
  files of the tree, and this number is what \<^verbatim>\<open>download_to_blob\<close> returns. (The
  base name is not empty and does not end in a slash, as the program's is.)
\<close>

theorem upload_phase_one_blob_per_file:
  assumes base: "base_blob_name \<noteq> []" "\<not> suffix ''/'' base_blob_name"
    and client: "get_container w storage_acct_url container_name = (Inr container_client, w0)"
    and tmp: "mkdtemp w0 = Inr (tmpdir, w1)"
    and extracted: "download_and_extract w1 tmpdir file_url file_name = (Inr (), w2)"
    and tree: "fs_get (fs w2) (abs_comps (cwd w2) tmpdir) = Some (Dir es)" "wf_node (Dir es)"
    and no_raise: "upload_phase w2 tmpdir file_name container_client base_blob_name = (Inr n, w3)"
  shows "n = count_files (Dir es)
       \<and> length (tree_files [] (Dir es)) = count_files (Dir es)
       \<and> blobs_in w3 container_client
           = blobs_in w2 container_client @ map (blob_of base_blob_name) (tree_files [] (Dir es))
       \<and> trace w3 = trace w2
           @ map (\<lambda>f. Remote (UploadBlob container_client (fst (blob_of base_blob_name f))))
               (tree_files [] (Dir es))
           @ [LogTiming ''uploading'' file_name]
       \<and> fst (download_to_blob w
                (file_url, file_name, storage_acct_url, container_name, base_blob_name))
           = Inr (int (count_files (Dir es)))"
proof -
  from no_raise obtain w' where
    uw: "upload_walk w2 container_client base_blob_name tmpdir (os_walk w2 tmpdir) 0 = (Inr n, w')"
    and w3: "w3 = emit (LogTiming ''uploading'' file_name) w'"
    by (auto simp: upload_phase_def split: prod.splits sum.splits)
  have ow: "os_walk w2 tmpdir = walk tmpdir (Dir es)" using tree(1) by (simp add: os_walk_def)
  have "uploads_done container_client base_blob_name w2 0 (tree_files [] (Dir es)) w' n"
    by (rule upload_walk_tree[OF base tree(2) _ _ uw[unfolded ow]]) simp_all
  then have d: "n = length (tree_files [] (Dir es))"
    "blobs_in w' container_client
       = blobs_in w2 container_client @ map (blob_of base_blob_name) (tree_files [] (Dir es))"
    "trace w' = trace w2
       @ map (\<lambda>f. Remote (UploadBlob container_client (fst (blob_of base_blob_name f))))
           (tree_files [] (Dir es))"
    by (simp_all add: uploads_done_def)
  have c: "length (tree_files [] (Dir es)) = count_files (Dir es)"
    using tree_files_count[of "[]" "Dir es"] by simp
  have r: "fst (download_to_blob w
                (file_url, file_name, storage_acct_url, container_name, base_blob_name))
           = Inr (int n)"
    using client tmp extracted no_raise
    by (simp add: download_to_blob_def with_tmpdir_def pipeline_body_def)
  from d c r w3 show ?thesis by (simp add: emit_def blobs_in_def)
qed

theorem upload_phase_one_blob_per_file_witness:
  "tree_files [] (Dir [(''frames'', Dir [(''1.jpg'', File ''one''), (''2.jpg'', File ''two'')]),
                       (''info.csv'', File ''csv'')])
     = [([''info.csv''], ''csv''), ([''frames'', ''1.jpg''], ''one''), ([''frames'', ''2.jpg''], ''two'')]
   \<and> fst (download_to_blob example_world example_task) = Inr 3"
proof -
  let ?es = "[(''frames'', Dir [(''1.jpg'', File ''one''), (''2.jpg'', File ''two'')]),
              (''info.csv'', File ''csv'')]"
  have b: "''real-colon-dataset'' \<noteq> []" "\<not> suffix ''/'' ''real-colon-dataset''"
    by (simp_all add: suffix_to_prefix)
  have wf: "wf_node (Dir ?es)" by (simp add: plain_def)
  have cnt: "count_files (Dir ?es) = 3" by simp
  have "\<exists>w0 w1 w2 w3.
          get_container example_world (Some ''https://account.blob.core.windows.net'')
             ''polyp-datasets'' = (Inr ''polyp-datasets'', w0)
        \<and> mkdtemp w0 = Inr (''/tmp/tmp3'', w1)
        \<and> download_and_extract w1 ''/tmp/tmp3'' ''http://figshare/2'' ''notes2.tar.gz'' = (Inr (), w2)
        \<and> fs_get (fs w2) (abs_comps (cwd w2) ''/tmp/tmp3'') = Some (Dir ?es)
        \<and> upload_phase w2 ''/tmp/tmp3'' ''notes2.tar.gz'' ''polyp-datasets'' ''real-colon-dataset''
            = (Inr 3, w3)"
    by (simp add: example_world_def example_members_def run_defs)
  then obtain w0 w1 w2 w3 where
    h: "get_container example_world (Some ''https://account.blob.core.windows.net'')
             ''polyp-datasets'' = (Inr ''polyp-datasets'', w0)"
       "mkdtemp w0 = Inr (''/tmp/tmp3'', w1)"
       "download_and_extract w1 ''/tmp/tmp3'' ''http://figshare/2'' ''notes2.tar.gz'' = (Inr (), w2)"
       "fs_get (fs w2) (abs_comps (cwd w2) ''/tmp/tmp3'') = Some (Dir ?es)"
       "upload_phase w2 ''/tmp/tmp3'' ''notes2.tar.gz'' ''polyp-datasets'' ''real-colon-dataset''
            = (Inr 3, w3)" by blast
  from upload_phase_one_blob_per_file[OF b h(1,2,3,4) wf h(5)]
  have "fst (download_to_blob example_world
               (''http://figshare/2'', ''notes2.tar.gz'',
                Some ''https://account.blob.core.windows.net'', ''polyp-datasets'',
                ''real-colon-dataset'')) = Inr (int (count_files (Dir ?es)))" by blast
  then show ?thesis by (simp add: example_task_def)
qed


section \<open>The Orchestrator\<close>

lemma blob_exists_result:
  assumes "blob_exists w f cc base = (Inr b, w')"
  shows "b = (filter (prefix (path_join base (name_wo_ext f))) (map fst (blobs_in w cc)) \<noteq> [])
       \<and> containers w' = containers w"
  using assms
  by (auto simp: blob_exists_def list_blob_names_def remote_call_def tick_def emit_def blobs_in_def
           Let_def split: option.splits list.splits)

lemma queue_tasks_result:
  "queue_tasks w files cc url acc = (Inr tasks, w') \<Longrightarrow>
   tasks = acc @ map (\<lambda>info. (download_url info, name info, url, CONTAINER_NAME, BASE_BLOB_NAME))
                  (filter (\<lambda>info. filter (prefix (path_join BASE_BLOB_NAME (name_wo_ext (name info))))
                                     (map fst (blobs_in w cc)) = []) files)"
proof (induction files arbitrary: w acc)
  case Nil then show ?case by simp
next
  case (Cons info rest)
  obtain r w1 where be: "blob_exists w (name info) cc BASE_BLOB_NAME = (r, w1)"
    by (cases "blob_exists w (name info) cc BASE_BLOB_NAME")
  show ?case
  proof (cases r)
    case (Inl e)
    with Cons.prems be show ?thesis by (simp add: Let_def)
  next
    case (Inr b)
    from blob_exists_result[OF be[unfolded Inr]]
    have b: "b = (filter (prefix (path_join BASE_BLOB_NAME (name_wo_ext (name info))))
                    (map fst (blobs_in w cc)) \<noteq> [])"
      and c: "containers w1 = containers w" by simp_all
    have bi: "\<And>ev. blobs_in (emit ev w1) cc = blobs_in w cc"
      using c by (simp add: blobs_in_def emit_def)
    show ?thesis
    proof (cases b)
      case True
      with Cons.prems be Inr have
        "queue_tasks (emit (LogInfo (''blobs for file '' @ name info @ '' already uploaded. Skipping'')) w1)
           rest cc url acc = (Inr tasks, w')" by (simp add: Let_def)
      from Cons.IH[OF this] True b show ?thesis by (simp add: bi)
    next
      case False
      with Cons.prems be Inr have
        "queue_tasks (emit (LogInfo (''Queued '' @ name info @ '' for download...'')) w1)
           rest cc url (acc @ [(download_url info, name info, url, CONTAINER_NAME, BASE_BLOB_NAME)])
         = (Inr tasks, w')" by (simp add: Let_def)
      from Cons.IH[OF this] False b show ?thesis by (simp add: bi)
    qed
  qed
qed

lemma summary_trace:
  "trace (summary w items) = trace w @
     map (\<lambda>(file, n_blobs).
            if n_blobs = - 1
            then LogError (''Something went wrong for file '' @ file
                           @ ''. See exception logs for stack trace.'')
            else LogInfo (''Uploaded '' @ str_int n_blobs @ '' for file '' @ file)) items"
  by (induction w items rule: summary.induct) (auto simp: emit_def)

lemmas main_defs = main_def queue_tasks.simps blob_exists_def list_blob_names_def name_wo_ext_def
  slice_to_def CONTAINER_NAME_def BASE_BLOB_NAME_def article_url_def


lemma starmap_length:
  "starmap_download_to_blob w tasks = (Inr ns, w') \<Longrightarrow> length ns = length tasks"
proof (induction tasks arbitrary: w ns)
  case Nil then show ?case by simp
next
  case (Cons t tasks)
  then show ?case by (auto split: prod.splits sum.splits)
qed

lemma main_pool:
  assumes "get_container w (account_url_env w) CONTAINER_NAME = (Inr cc, w1)"
    and "article w1 (ticks w1) = Inr files"
    and "queue_tasks (tick (emit (Request article_url) w1)) files cc (account_url_env w) []
           = (Inr download_tasks, w2)"
  shows "main w =
     (if download_tasks = []
      then (Inl (UnboundLocalError ''local variable results referenced before assignment''), w2)
      else (case starmap_download_to_blob
                   (emit (PoolCreated (min 4 (length download_tasks))) w2) download_tasks of
              (Inl e, w3) \<Rightarrow> (Inl e, w3)
            | (Inr ns, w3) \<Rightarrow>
                (Inr (), emit (LogInfo ''All downloads completed.'')
                           (summary w3 (zip (map (\<lambda>args. fst (snd args)) download_tasks) ns)))))"
  using assms
  by (cases download_tasks)
     (auto simp: main_def Let_def min_def split: prod.splits sum.splits)

text \<open>
  C2. Let the first statements of \<^verbatim>\<open>main\<close> and the fetch of the catalog succeed and
  the loop over the catalog end with the list \<^verbatim>\<open>download_tasks\<close>. An entry for which
  the listing under its prefix is not empty, which is when \<^verbatim>\<open>blob_exists\<close> answers
  \<^verbatim>\<open>True\<close>, has no task in it: the list is made of exactly the entries whose
  listing is empty, in catalog order, so the decision for an entry depends on its
  own listing alone. And the pipelines that \<^verbatim>\<open>main\<close> runs are the ones of
  \<^verbatim>\<open>starmap\<close> over this list.
\<close>

theorem orchestrator_skips_existing:
  assumes "get_container w (account_url_env w) CONTAINER_NAME = (Inr container_client, w1)"
    and "article w1 (ticks w1) = Inr files"
    and "queue_tasks (tick (emit (Request article_url) w1)) files container_client
           (account_url_env w) [] = (Inr download_tasks, w2)"
    and "filter (prefix (path_join BASE_BLOB_NAME (name_wo_ext (name info))))
           (map fst (blobs_in w1 container_client)) \<noteq> []"
  shows "(\<forall>args \<in> set download_tasks. fst (snd args) \<noteq> name info)
       \<and> download_tasks =
           map (\<lambda>info. (download_url info, name info, account_url_env w, CONTAINER_NAME, BASE_BLOB_NAME))
             (filter (\<lambda>info. filter (prefix (path_join BASE_BLOB_NAME (name_wo_ext (name info))))
                                (map fst (blobs_in w1 container_client)) = []) files)
       \<and> main w =
           (if download_tasks = []
            then (Inl (UnboundLocalError ''local variable results referenced before assignment''), w2)
            else (case starmap_download_to_blob
                         (emit (PoolCreated (min 4 (length download_tasks))) w2) download_tasks of
                    (Inl e, w3) \<Rightarrow> (Inl e, w3)
                  | (Inr ns, w3) \<Rightarrow>
                      (Inr (), emit (LogInfo ''All downloads completed.'')
                                 (summary w3 (zip (map (\<lambda>args. fst (snd args)) download_tasks) ns)))))"
proof -
  have b: "blobs_in (tick (emit (Request article_url) w1)) container_client
             = blobs_in w1 container_client"
    by (simp add: blobs_in_def tick_def emit_def)
  from queue_tasks_result[OF assms(3)] have
    q: "download_tasks =
           map (\<lambda>info. (download_url info, name info, account_url_env w, CONTAINER_NAME, BASE_BLOB_NAME))
             (filter (\<lambda>info. filter (prefix (path_join BASE_BLOB_NAME (name_wo_ext (name info))))
                                (map fst (blobs_in w1 container_client)) = []) files)"
    by (simp add: b)
  from q assms(4) have s: "\<forall>args \<in> set download_tasks. fst (snd args) \<noteq> name info" by auto
  from s q main_pool[OF assms(1,2,3)] show ?thesis by blast
qed

theorem orchestrator_skips_existing_witness:
  "\<exists>w1 w2 download_tasks.
      get_container two_entry_world (account_url_env two_entry_world) CONTAINER_NAME
        = (Inr ''polyp-datasets'', w1)
    \<and> queue_tasks (tick (emit (Request article_url) w1))
         [\<lparr>download_url = ''http://figshare/2'', name = ''notes2.tar.gz''\<rparr>,
          \<lparr>download_url = ''http://figshare/3'', name = ''notes3.tar.gz''\<rparr>]
         ''polyp-datasets'' (account_url_env two_entry_world) [] = (Inr download_tasks, w2)
    \<and> map (\<lambda>args. fst (snd args)) download_tasks = [''notes3.tar.gz'']"
proof -
  let ?files = "[\<lparr>download_url = ''http://figshare/2'', name = ''notes2.tar.gz''\<rparr>,
                 \<lparr>download_url = ''http://figshare/3'', name = ''notes3.tar.gz''\<rparr>]"
  let ?i2 = "\<lparr>download_url = ''http://figshare/2'', name = ''notes2.tar.gz''\<rparr>"
  have "\<exists>w1 w2 download_tasks.
      get_container two_entry_world (account_url_env two_entry_world) CONTAINER_NAME
        = (Inr ''polyp-datasets'', w1)
    \<and> article w1 (ticks w1) = Inr ?files
    \<and> queue_tasks (tick (emit (Request article_url) w1)) ?files
         ''polyp-datasets'' (account_url_env two_entry_world) [] = (Inr download_tasks, w2)
    \<and> filter (prefix (path_join BASE_BLOB_NAME (name_wo_ext (name ?i2))))
           (map fst (blobs_in w1 ''polyp-datasets'')) \<noteq> []"
    by (simp add: two_entry_world_def example_world_def blobs_in_def main_defs run_defs)
  then obtain w1 w2 download_tasks where
    h: "get_container two_entry_world (account_url_env two_entry_world) CONTAINER_NAME
        = (Inr ''polyp-datasets'', w1)"
       "article w1 (ticks w1) = Inr ?files"
       "queue_tasks (tick (emit (Request article_url) w1)) ?files
         ''polyp-datasets'' (account_url_env two_entry_world) [] = (Inr download_tasks, w2)"
       "filter (prefix (path_join BASE_BLOB_NAME (name_wo_ext (name ?i2))))
           (map fst (blobs_in w1 ''polyp-datasets'')) \<noteq> []" by blast
  have c: "containers w1 = containers two_entry_world"
    using h(1)
    by (auto simp: two_entry_world_def example_world_def get_container_def remote_call_def
             tick_def emit_def Let_def CONTAINER_NAME_def)
  have bl: "map fst (blobs_in w1 ''polyp-datasets'') = [''real-colon-dataset/notes2/a.txt'']"
    by (simp add: blobs_in_def c two_entry_world_def example_world_def)
  from orchestrator_skips_existing[OF h]
  have "download_tasks =
           map (\<lambda>info. (download_url info, name info, account_url_env two_entry_world,
                         CONTAINER_NAME, BASE_BLOB_NAME))
             (filter (\<lambda>info. filter (prefix (path_join BASE_BLOB_NAME (name_wo_ext (name info))))
                                (map fst (blobs_in w1 ''polyp-datasets'')) = []) ?files)"
    by blast
  then have m: "map (\<lambda>args. fst (snd args)) download_tasks = [''notes3.tar.gz'']"
    by (simp add: bl BASE_BLOB_NAME_def name_wo_ext_def slice_to_def path_join_def
          suffix_to_prefix)
  show ?thesis
    by (rule exI[of _ w1], rule exI[of _ w2], rule exI[of _ download_tasks])
       (intro conjI h(1) h(3) m)
qed

text \<open>
  C4, at a failing input. Every entry of the catalog is already uploaded, so there
  is no pending task. No pool is created; then \<^verbatim>\<open>main\<close> reads \<^verbatim>\<open>results\<close>, which
  was never assigned, and ends with an exception: it emits no summary and not its
  closing line.
\<close>

theorem main_zero_pending_raises:
  "name_wo_ext ''notes2.tar.gz'' = ''notes2''
   \<and> prefix ''real-colon-dataset/notes2'' ''real-colon-dataset/notes2/a.txt''
   \<and> fst (main example_world) = Inl (UnboundLocalError ''local variable results referenced before assignment'')
   \<and> trace (snd (main example_world)) =
       [Remote DefaultAzureCredential,
        Remote (BlobServiceClient (Some ''https://account.blob.core.windows.net'')),
        Remote (ListContainers ''polyp-datasets''),
        Request ''https://api.figshare.com/v2/articles/22202866'',
        Remote (ListBlobNames ''polyp-datasets'' ''real-colon-dataset/notes2''),
        LogInfo ''blobs for file notes2.tar.gz already uploaded. Skipping'']"
  by (simp add: example_world_def main_defs run_defs)


end
